theory Spec2Isabelle
  imports Main "HOL-Library.Word" "HOL-Library.Char_ord" "HOL-Library.List_Lexorder"
    "HOL-Library.Mapping"
begin

unbundle bit_operations_syntax

section \<open>The WebAssembly representation of \<^verbatim>\<open>tools/optimizer/wasm.h\<close>\<close>

text \<open>
  \<^verbatim>\<open>std::ostream &o\<close> is the text written so far; \<^verbatim>\<open>o << x\<close> appends. The
  formatting of the standard library is not part of the file: unsigned and signed integers
  are written in decimal, a \<^verbatim>\<open>bool\<close> as \<^verbatim>\<open>1\<close> or \<^verbatim>\<open>0\<close>, and the
  rendering of \<^verbatim>\<open>float\<close> and \<^verbatim>\<open>double\<close> is a parameter (\<open>float_format\<close>) acting
  on the bit pattern of the value.
\<close>

type_synonym ostream = string

text \<open>
  A call either returns or ends the defined behaviour of the run: \<^verbatim>\<open>abort()\<close>, a failed
  \<^verbatim>\<open>assert\<close>, a read through a null pointer, a read of the union member of \<^verbatim>\<open>Var\<close>
  that was not written, or control that reaches the closing brace of a function declared
  to return a value (\<^verbatim>\<open>std::ostream&\<close>) without a \<^verbatim>\<open>return\<close> statement, which is
  undefined behaviour in C++. Each of them is a value of \<open>failure\<close>, and every operation
  that can end so returns \<open>failure + 'a\<close>. \<open>MissingReturn o\<close> keeps the text that the
  stream held when control reached the closing brace.
\<close>

datatype failure =
    Abort
  | AssertionFailure
  | NullDereference
  | InactiveMember
  | MissingReturn ostream

definition and_then :: "failure + 'a \<Rightarrow> ('a \<Rightarrow> failure + 'b) \<Rightarrow> failure + 'b" where
  "and_then m f = (case m of Inl e \<Rightarrow> Inl e | Inr x \<Rightarrow> f x)"

abbreviation NL :: char where
  "NL \<equiv> CHR 0x0A"

definition digit :: "nat \<Rightarrow> char" where
  "digit n = ''0123456789'' ! n"

fun decimal :: "nat \<Rightarrow> string" where
  "decimal n = (if n < 10 then [digit n] else decimal (n div 10) @ [digit (n mod 10)])"

declare decimal.simps [simp del]

definition signed_decimal :: "int \<Rightarrow> string" where
  "signed_decimal i = (if i < 0 then CHR ''-'' # decimal (nat (- i)) else decimal (nat i))"

definition put_unsigned :: "ostream \<Rightarrow> 32 word \<Rightarrow> ostream" where
  "put_unsigned o' n = o' @ decimal (unat n)"

definition put_int :: "ostream \<Rightarrow> 32 word \<Rightarrow> ostream" where
  "put_int o' n = o' @ signed_decimal (sint n)"

definition put_bool :: "ostream \<Rightarrow> bool \<Rightarrow> ostream" where
  "put_bool o' b = o' @ (if b then ''1'' else ''0'')"

record float_format =
  show_float :: "32 word \<Rightarrow> string"
  show_double :: "64 word \<Rightarrow> string"

text \<open>Reading a decimal numeral back, to say what "the decimal rendering" is.\<close>

definition digit_value :: "char \<Rightarrow> nat" where
  "digit_value c = of_char c - 48"

definition is_digit :: "char \<Rightarrow> bool" where
  "is_digit c = (c \<in> set ''0123456789'')"

definition read_decimal :: "string \<Rightarrow> nat" where
  "read_decimal s = foldl (\<lambda>acc c. 10 * acc + digit_value c) 0 s"

subsection \<open>Indentation\<close>

function doIndent_loop :: "ostream \<Rightarrow> 32 word \<Rightarrow> 32 word \<Rightarrow> ostream" where
  "doIndent_loop o' i indent =
     (if i < indent then doIndent_loop (o' @ ''  '') (i + 1) indent else o')"
  by pat_completeness auto
termination
proof (relation "measure (\<lambda>(o', i, indent). unat indent - unat i)")
  show "wf (measure (\<lambda>(o', i, indent). unat indent - unat i))"
    by simp
next
  fix o' :: ostream and i indent :: "32 word"
  assume lt: "i < indent"
  then have "unat i < unat indent"
    by (simp add: word_less_nat_alt)
  moreover have "unat indent < 2 ^ 32"
    using unsigned_less [of indent] by simp
  ultimately have "unat i + unat (1 :: 32 word) < 2 ^ LENGTH(32)"
    by simp
  then have "unat (i + 1) = unat i + unat (1 :: 32 word)"
    by (simp only: unat_add_lem)
  with \<open>unat i < unat indent\<close>
  show "((o' @ ''  '', i + 1, indent), (o', i, indent))
      \<in> measure (\<lambda>(o', i, indent). unat indent - unat i)"
    by simp
qed

declare doIndent_loop.simps [simp del]

definition doIndent :: "ostream \<Rightarrow> 32 word \<Rightarrow> ostream" where
  "doIndent o' indent = doIndent_loop o' 0 indent"

definition incIndent :: "ostream \<Rightarrow> 32 word \<Rightarrow> ostream \<times> 32 word" where
  "incIndent o' indent = (o' @ [NL], indent + 1)"

definition decIndent :: "ostream \<Rightarrow> 32 word \<Rightarrow> ostream \<times> 32 word" where
  "decIndent o' indent = (doIndent o' (indent - 1) @ '')'', indent - 1)"

subsection \<open>Names and identifiers\<close>

text \<open>
  Modelled from the spec: \<^verbatim>\<open>cashew::IString\<close>, the type behind \<^verbatim>\<open>Name\<close>, is
  declared outside the file. A name is an interned, non-null C string: \<open>str\<close> is its text and
  \<open>handle\<close> is what the storage of the name reads as when \<^verbatim>\<open>Var\<close> looks at it through
  its \<^verbatim>\<open>unsigned num\<close> member (the "underlying value" of the name).
\<close>

datatype Name = IString (handle: "32 word") (str: string)

text \<open>
  \<^verbatim>\<open>Var\<close> is a union of \<^verbatim>\<open>unsigned num\<close> and \<^verbatim>\<open>Name str\<close>; the constructor that
  wrote the storage is the constructor of the datatype, and \<open>num\<close> reads the storage as a
  number, whichever member was written.
\<close>

datatype Var = Var_of_num "32 word" | Var_of_str Name

definition MAX_NUM :: "32 word" where
  "MAX_NUM = 1000000"

fun num :: "Var \<Rightarrow> 32 word" where
  "num (Var_of_num n) = n"
| "num (Var_of_str s) = handle s"

definition Var_default :: Var where
  "Var_default = Var_of_num 0"

definition Var_num :: "32 word \<Rightarrow> failure + Var" where
  "Var_num n = (if n > 0 \<and> n < MAX_NUM then Inr (Var_of_num n) else Inl AssertionFailure)"

definition Var_name :: "Name \<Rightarrow> failure + Var" where
  "Var_name s =
     (if num (Var_of_str s) > MAX_NUM then Inr (Var_of_str s) else Inl AssertionFailure)"

definition Var_is :: "Var \<Rightarrow> bool" where
  "Var_is v = (num v \<noteq> 0)"

fun Var_print :: "ostream \<Rightarrow> Var \<Rightarrow> failure + ostream" where
  "Var_print o' v =
     (if num v < MAX_NUM then Inr (put_unsigned o' (num v))
      else (case v of Var_of_str s \<Rightarrow> Inr (o' @ str s) | Var_of_num n \<Rightarrow> Inl InactiveMember))"

subsection \<open>Types and literals\<close>

datatype BasicType = none | i32 | i64 | f32 | f64

fun printBasicType :: "ostream \<Rightarrow> BasicType \<Rightarrow> ostream" where
  "printBasicType o' none = o' @ ''none''"
| "printBasicType o' i32 = o' @ ''i32''"
| "printBasicType o' i64 = o' @ ''i64''"
| "printBasicType o' f32 = o' @ ''f32''"
| "printBasicType o' f64 = o' @ ''f64''"

fun getBasicTypeSize :: "BasicType \<Rightarrow> failure + 32 word" where
  "getBasicTypeSize none = Inl Abort"
| "getBasicTypeSize i32 = Inr 4"
| "getBasicTypeSize i64 = Inr 8"
| "getBasicTypeSize f32 = Inr 4"
| "getBasicTypeSize f64 = Inr 8"

text \<open>
  \<^verbatim>\<open>Literal\<close> is a type tag and a union of the four payloads; each C++ constructor is a
  constructor of the datatype (\<open>Literal_default\<close> is \<^verbatim>\<open>Literal()\<close>), the payloads of
  \<^verbatim>\<open>float\<close> and \<^verbatim>\<open>double\<close> are their bit patterns.
\<close>

datatype Literal =
    Literal_default
  | Literal_i32 "32 word"
  | Literal_i64 "64 word"
  | Literal_f32 "32 word"
  | Literal_f64 "64 word"

fun Literal_type :: "Literal \<Rightarrow> BasicType" where
  "Literal_type Literal_default = none"
| "Literal_type (Literal_i32 v) = i32"
| "Literal_type (Literal_i64 v) = i64"
| "Literal_type (Literal_f32 v) = f32"
| "Literal_type (Literal_f64 v) = f64"

fun Literal_print :: "float_format \<Rightarrow> ostream \<Rightarrow> Literal \<Rightarrow> failure + ostream" where
  "Literal_print fm o' Literal_default = Inl Abort"
| "Literal_print fm o' (Literal_i32 v) = Inr (o' @ signed_decimal (sint v))"
| "Literal_print fm o' (Literal_i64 v) = Inr (o' @ signed_decimal (sint v))"
| "Literal_print fm o' (Literal_f32 v) = Inr (o' @ show_float fm v)"
| "Literal_print fm o' (Literal_f64 v) = Inr (o' @ show_double fm v)"


subsection \<open>Operators\<close>

datatype UnaryOp = Clz | Ctz | Popcnt | Neg | Abs | Ceil | Floor | Trunc | Nearest | Sqrt

datatype BinaryOp =
    Add | Sub | Mul
  | DivS | DivU | RemS | RemU | And | Or | Xor | Shl | ShrU | ShrS
  | Div | CopySign | Min | Max

datatype RelationalOp =
    Eq | Ne
  | LtS | LtU | LeS | LeU | GtS | GtU | GeS | GeU
  | Lt | Le | Gt | Ge

datatype ConvertOp =
    ExtendSInt32 | ExtendUInt32 | WrapInt64 | TruncSFloat32 | TruncUFloat32 | TruncSFloat64
  | TruncUFloat64 | ReinterpretFloat
  | ConvertSInt32 | ConvertUInt32 | ConvertSInt64 | ConvertUInt64 | PromoteFloat32
  | DemoteFloat64 | ReinterpretInt

datatype HostOp = PageSize | MemorySize | GrowMemory | HasFeature

fun UnaryOp_text :: "UnaryOp \<Rightarrow> failure + string" where
  "UnaryOp_text Neg = Inr ''neg''"
| "UnaryOp_text _ = Inl Abort"

fun BinaryOp_text :: "BinaryOp \<Rightarrow> failure + string" where
  "BinaryOp_text Add = Inr ''add''"
| "BinaryOp_text Sub = Inr ''sub''"
| "BinaryOp_text Mul = Inr ''mul''"
| "BinaryOp_text DivS = Inr ''divs''"
| "BinaryOp_text DivU = Inr ''divu''"
| "BinaryOp_text RemS = Inr ''rems''"
| "BinaryOp_text RemU = Inr ''remu''"
| "BinaryOp_text And = Inr ''and''"
| "BinaryOp_text Or = Inr ''or''"
| "BinaryOp_text Xor = Inr ''xor''"
| "BinaryOp_text Shl = Inr ''shl''"
| "BinaryOp_text ShrU = Inr ''shru''"
| "BinaryOp_text ShrS = Inr ''shrs''"
| "BinaryOp_text Div = Inr ''div''"
| "BinaryOp_text CopySign = Inr ''copysign''"
| "BinaryOp_text Min = Inr ''min''"
| "BinaryOp_text Max = Inr ''max''"

fun RelationalOp_text :: "RelationalOp \<Rightarrow> failure + string" where
  "RelationalOp_text Eq = Inr ''eq''"
| "RelationalOp_text Ne = Inr ''ne''"
| "RelationalOp_text LtS = Inr ''lts''"
| "RelationalOp_text LtU = Inr ''ltu''"
| "RelationalOp_text LeS = Inr ''les''"
| "RelationalOp_text LeU = Inr ''leu''"
| "RelationalOp_text GtS = Inr ''gts''"
| "RelationalOp_text GtU = Inr ''gtu''"
| "RelationalOp_text GeS = Inr ''ges''"
| "RelationalOp_text GeU = Inr ''geu''"
| "RelationalOp_text Lt = Inr ''lt''"
| "RelationalOp_text Le = Inr ''le''"
| "RelationalOp_text Gt = Inr ''gt''"
| "RelationalOp_text Ge = Inr ''ge''"

fun ConvertOp_text :: "ConvertOp \<Rightarrow> failure + string" where
  "ConvertOp_text ConvertUInt32 = Inr ''uint32toDouble''"
| "ConvertOp_text ConvertSInt32 = Inr ''sint32toDouble''"
| "ConvertOp_text TruncSFloat64 = Inr ''float64tosint32''"
| "ConvertOp_text _ = Inl Abort"

subsection \<open>Expressions\<close>

text \<open>
  One constructor for each class derived from \<^verbatim>\<open>Expression\<close> of which an object can
  be created, with the fields of the class in their order. An \<^verbatim>\<open>Expression *\<close> is an
  \<open>Expression option\<close> (\<open>None\<close> is the null pointer), an \<^verbatim>\<open>ExpressionList\<close> a list of
  them. \<^verbatim>\<open>Label\<close> and \<^verbatim>\<open>Host\<close> do not override the pure virtual \<^verbatim>\<open>print\<close>:
  they are abstract classes, as \<^verbatim>\<open>Expression\<close> itself, no object of them exists, and
  they are types of their own here.
\<close>

datatype Expression =
    Nop
  | Block Var "Expression option list"
  | If "Expression option" "Expression option" "Expression option"
  | Loop Var Var "Expression option"
  | Break Var "Expression option" "Expression option"
  | Switch Var "Expression option" "Case list" "Expression option"
  | Call Var "Expression option list"
  | CallImport Var "Expression option list"
  | CallIndirect "Expression option" "Expression option list"
  | GetLocal Var
  | SetLocal Var "Expression option"
  | Load "32 word" bool "32 word" "32 word" "Expression option"
  | Store "32 word" "32 word" "32 word" "Expression option" "Expression option"
  | Const Literal
  | Unary UnaryOp "Expression option"
  | Binary BinaryOp "Expression option" "Expression option"
  | Compare RelationalOp "Expression option" "Expression option"
  | Convert ConvertOp "Expression option"
and Case = Case Literal "Expression option" bool

datatype Label = Label Var

datatype Host = Host HostOp "Expression option list"

text \<open>
  \<^verbatim>\<open>print\<close> is the virtual method, one equation for each override; \<^verbatim>\<open>CallImport\<close>
  inherits the one of \<^verbatim>\<open>Call\<close>. The body of \<^verbatim>\<open>printFullLine\<close> and the body of
  \<^verbatim>\<open>Const::print\<close> end without a \<^verbatim>\<open>return\<close> statement: when their last statement
  has written, the call ends in \<open>MissingReturn\<close>. \<open>printFullLines\<close> is the loop
  \<^verbatim>\<open>for (auto expression : list) printFullLine(...)\<close>.
\<close>

function (sequential)
  print :: "float_format \<Rightarrow> ostream \<Rightarrow> 32 word \<Rightarrow> Expression \<Rightarrow> failure + ostream"
  and printFullLine ::
    "float_format \<Rightarrow> ostream \<Rightarrow> 32 word \<Rightarrow> Expression option \<Rightarrow> failure + ostream"
  and printFullLines ::
    "float_format \<Rightarrow> ostream \<Rightarrow> 32 word \<Rightarrow> Expression option list \<Rightarrow> failure + ostream"
where
  "print fm o' indent Nop = Inr (o' @ ''nop'')"
| "print fm o' indent (Block var list) =
     and_then (if Var_is var then Var_print (o' @ ''(block'' @ '' '') var
               else Inr (o' @ ''(block'')) (\<lambda>o1.
     case incIndent o1 indent of (o2, indent) \<Rightarrow>
     and_then (printFullLines fm o2 indent list) (\<lambda>o3.
     case decIndent o3 indent of (o4, indent) \<Rightarrow> Inr o4))"
| "print fm o' indent (If condition ifTrue ifFalse) =
    (case incIndent (o' @ ''(if'') indent of (o1, indent) \<Rightarrow>
     and_then (printFullLine fm o1 indent condition) (\<lambda>o2.
     and_then (printFullLine fm o2 indent ifTrue) (\<lambda>o3.
     and_then (if ifFalse \<noteq> None then printFullLine fm o3 indent ifFalse else Inr o3) (\<lambda>o4.
     case decIndent o4 indent of (o5, indent) \<Rightarrow> Inr o5))))"
| "print fm o' indent (Loop out' in' body) =
     and_then (if Var_is out'
               then and_then (Var_print (o' @ ''(loop'' @ '' '') out') (\<lambda>o1.
                      if Var_is in' then Var_print (o1 @ '' '') in' else Inr o1)
               else Inr (o' @ ''(loop'')) (\<lambda>o2.
     case incIndent o2 indent of (o3, indent) \<Rightarrow>
     and_then (printFullLine fm o3 indent body) (\<lambda>o4.
     case decIndent o4 indent of (o5, indent) \<Rightarrow> Inr o5))"
| "print fm o' indent (Break var condition val) =
     and_then (Var_print (o' @ ''(break '') var) (\<lambda>o1.
     case incIndent o1 indent of (o2, indent) \<Rightarrow>
     and_then (if condition \<noteq> None then printFullLine fm o2 indent condition else Inr o2) (\<lambda>o3.
     and_then (if val \<noteq> None then printFullLine fm o3 indent val else Inr o3) (\<lambda>o4.
     case decIndent o4 indent of (o5, indent) \<Rightarrow> Inr o5)))"
| "print fm o' indent (Switch var val cases dflt) =
     and_then (Var_print (o' @ ''(switch '') var) (\<lambda>o1.
     case incIndent o1 indent of (o2, indent) \<Rightarrow>
     and_then (printFullLine fm o2 indent val) (\<lambda>o3.
     case decIndent (o3 @ ''TODO: cases/default'' @ [NL]) indent of (o4, indent) \<Rightarrow> Inr o4))"
| "print fm o' indent (Call target operands) =
     and_then (Var_print (o' @ ''(call '') target) (\<lambda>o1.
     case incIndent o1 indent of (o2, indent) \<Rightarrow>
     and_then (printFullLines fm o2 indent operands) (\<lambda>o3.
     case decIndent o3 indent of (o4, indent) \<Rightarrow> Inr o4))"
| "print fm o' indent (CallImport target operands) =
     and_then (Var_print (o' @ ''(call '') target) (\<lambda>o1.
     case incIndent o1 indent of (o2, indent) \<Rightarrow>
     and_then (printFullLines fm o2 indent operands) (\<lambda>o3.
     case decIndent o3 indent of (o4, indent) \<Rightarrow> Inr o4))"
| "print fm o' indent (CallIndirect target operands) =
    (case incIndent (o' @ ''(callindirect '') indent of (o1, indent) \<Rightarrow>
     and_then (printFullLine fm o1 indent target) (\<lambda>o2.
     and_then (printFullLines fm o2 indent operands) (\<lambda>o3.
     case decIndent o3 indent of (o4, indent) \<Rightarrow> Inr o4)))"
| "print fm o' indent (GetLocal id') =
     and_then (Var_print (o' @ ''(setlocal '') id') (\<lambda>o1. Inr (o1 @ '')''))"
| "print fm o' indent (SetLocal id' val) =
     and_then (Var_print (o' @ ''(setlocal '') id') (\<lambda>o1.
     case incIndent o1 indent of (o2, indent) \<Rightarrow>
     and_then (printFullLine fm o2 indent val) (\<lambda>o3.
     case decIndent o3 indent of (o4, indent) \<Rightarrow> Inr o4))"
| "print fm o' indent (Load bytes signed' offset align ptr) =
    (case incIndent
            (put_unsigned
               (put_int (put_bool (put_unsigned (o' @ ''(load '') bytes @ '' '') signed' @ '' '')
                  offset @ '' '')
               align) indent of (o1, indent) \<Rightarrow>
     and_then (printFullLine fm o1 indent ptr) (\<lambda>o2.
     case decIndent o2 indent of (o3, indent) \<Rightarrow> Inr o3))"
| "print fm o' indent (Store bytes offset align ptr val) =
    (case incIndent
            (put_unsigned
               (put_int (put_unsigned (o' @ ''(load '') bytes @ '' '' @ '' '') offset @ '' '')
               align) indent of (o1, indent) \<Rightarrow>
     and_then (printFullLine fm o1 indent ptr) (\<lambda>o2.
     and_then (printFullLine fm o2 indent val) (\<lambda>o3.
     case decIndent o3 indent of (o4, indent) \<Rightarrow> Inr o4)))"
| "print fm o' indent (Const val) =
     and_then (Literal_print fm (o' @ ''(literal '') val) (\<lambda>o1.
     Inl (MissingReturn (o1 @ '')'')))"
| "print fm o' indent (Unary op val) =
     and_then (UnaryOp_text op) (\<lambda>t.
     case incIndent (o' @ ''(unary '' @ t) indent of (o1, indent) \<Rightarrow>
     and_then (printFullLine fm o1 indent val) (\<lambda>o2.
     case decIndent o2 indent of (o3, indent) \<Rightarrow> Inr o3))"
| "print fm o' indent (Binary op left right) =
     and_then (BinaryOp_text op) (\<lambda>t.
     case incIndent (o' @ ''(binary '' @ t) indent of (o1, indent) \<Rightarrow>
     and_then (printFullLine fm o1 indent left) (\<lambda>o2.
     and_then (printFullLine fm o2 indent right) (\<lambda>o3.
     case decIndent o3 indent of (o4, indent) \<Rightarrow> Inr o4)))"
| "print fm o' indent (Compare op left right) =
     and_then (RelationalOp_text op) (\<lambda>t.
     case incIndent (o' @ ''(compare '' @ t) indent of (o1, indent) \<Rightarrow>
     and_then (printFullLine fm o1 indent left) (\<lambda>o2.
     and_then (printFullLine fm o2 indent right) (\<lambda>o3.
     case decIndent o3 indent of (o4, indent) \<Rightarrow> Inr o4)))"
| "print fm o' indent (Convert op val) =
     and_then (ConvertOp_text op) (\<lambda>t.
     case incIndent (o' @ ''(convert '' @ t) indent of (o1, indent) \<Rightarrow>
     and_then (printFullLine fm o1 indent val) (\<lambda>o2.
     case decIndent o2 indent of (o3, indent) \<Rightarrow> Inr o3))"
| "printFullLine fm o' indent None = Inl NullDereference"
| "printFullLine fm o' indent (Some expression) =
     and_then (print fm (doIndent o' indent) indent expression) (\<lambda>o1.
     Inl (MissingReturn (o1 @ [NL])))"
| "printFullLines fm o' indent [] = Inr o'"
| "printFullLines fm o' indent (expression # rest) =
     and_then (printFullLine fm o' indent expression) (\<lambda>o1. printFullLines fm o1 indent rest)"
  by pat_completeness auto
termination
  by (relation "measure (\<lambda>x. case x of
      Inl (fm, o', i, e) \<Rightarrow> size e
    | Inr (Inl (fm, o', i, p)) \<Rightarrow> size_option size p
    | Inr (Inr (fm, o', i, ps)) \<Rightarrow> size_list (size_option size) ps)") auto

text \<open>What the arena's \<^verbatim>\<open>new (ret) T()\<close> leaves in a \<^verbatim>\<open>Const\<close>, and \<^verbatim>\<open>Const::set\<close>.\<close>

definition Const_default :: Expression where
  "Const_default = Const Literal_default"

fun Const_set :: "Expression \<Rightarrow> Literal \<Rightarrow> Expression" where
  "Const_set (Const val) value' = Const value'"
| "Const_set e value' = e"


subsection \<open>Declarations\<close>

record NameType =
  name :: Name
  type :: BasicType

fun printParams :: "ostream \<Rightarrow> NameType list \<Rightarrow> ostream" where
  "printParams o' [] = o'"
| "printParams o' (param # rest) =
     printParams
       (printBasicType (o' @ ''(param '' @ str (NameType.name param) @ '' '') (NameType.type param)
          @ '') '') rest"

text \<open>\<^verbatim>\<open>printParamsAndResult\<close> ends without a \<^verbatim>\<open>return\<close> statement.\<close>

definition printParamsAndResult ::
    "ostream \<Rightarrow> 32 word \<Rightarrow> BasicType \<Rightarrow> NameType list \<Rightarrow> failure + ostream" where
  "printParamsAndResult o' indent result' params' =
     Inl (MissingReturn (printBasicType (printParams o' params' @ ''(result '') result' @ '')''))"

record FunctionType =
  name :: Name
  result :: BasicType
  params :: "BasicType list"

fun FunctionType_printParams :: "ostream \<Rightarrow> BasicType list \<Rightarrow> ostream" where
  "FunctionType_printParams o' [] = o'"
| "FunctionType_printParams o' (param # rest) =
     FunctionType_printParams (printBasicType (o' @ ''(param '') param @ '') '') rest"

definition FunctionType_print :: "ostream \<Rightarrow> 32 word \<Rightarrow> FunctionType \<Rightarrow> ostream" where
  "FunctionType_print o' indent t =
    (case incIndent (o' @ ''(type '' @ str (FunctionType.name t)) indent of (o1, indent) \<Rightarrow>
     case decIndent
            (printBasicType
               (FunctionType_printParams (doIndent o1 indent) (FunctionType.params t)
                  @ ''(result '')
               (FunctionType.result t) @ '')'' @ [NL]) indent of (o2, indent) \<Rightarrow> o2)"

text \<open>
  \<^verbatim>\<open>operator==\<close>: the loop over the parameters runs after the sizes were found equal.
  \<^verbatim>\<open>Name\<close> is compared by \<^verbatim>\<open>IString\<close>'s \<^verbatim>\<open>operator!=\<close>, the identity of the
  interned string.
\<close>

function FunctionType_eq_loop :: "BasicType list \<Rightarrow> BasicType list \<Rightarrow> nat \<Rightarrow> bool" where
  "FunctionType_eq_loop ps qs i =
     (if i < length ps
      then (if ps ! i \<noteq> qs ! i then False else FunctionType_eq_loop ps qs (Suc i))
      else True)"
  by pat_completeness auto
termination
  by (relation "measure (\<lambda>(ps, qs, i). length ps - i)") auto

declare FunctionType_eq_loop.simps [simp del]

definition FunctionType_eq :: "FunctionType \<Rightarrow> FunctionType \<Rightarrow> bool" where
  "FunctionType_eq a b =
     (if FunctionType.name a \<noteq> FunctionType.name b then False
      else if FunctionType.result a \<noteq> FunctionType.result b then False
      else if length (FunctionType.params a) \<noteq> length (FunctionType.params b) then False
      else FunctionType_eq_loop (FunctionType.params a) (FunctionType.params b) 0)"

definition FunctionType_neq :: "FunctionType \<Rightarrow> FunctionType \<Rightarrow> bool" where
  "FunctionType_neq a b = (\<not> FunctionType_eq a b)"

record Function =
  name :: Name
  result :: BasicType
  params :: "NameType list"
  locals :: "NameType list"
  body :: "Expression option"

fun Function_printLocals :: "ostream \<Rightarrow> 32 word \<Rightarrow> NameType list \<Rightarrow> ostream" where
  "Function_printLocals o' indent [] = o'"
| "Function_printLocals o' indent (local # rest) =
     Function_printLocals
       (printBasicType (doIndent o' indent @ ''(local '' @ str (NameType.name local) @ '' '')
          (NameType.type local) @ '')'' @ [NL]) indent rest"

definition Function_print ::
    "float_format \<Rightarrow> ostream \<Rightarrow> 32 word \<Rightarrow> Function \<Rightarrow> failure + ostream" where
  "Function_print fm o' indent f =
     and_then (printParamsAndResult (o' @ ''(func '' @ str (Function.name f) @ '' '') indent
                 (Function.result f) (Function.params f)) (\<lambda>o1.
     case incIndent o1 indent of (o2, indent) \<Rightarrow>
     and_then (printFullLine fm (Function_printLocals o2 indent (Function.locals f)) indent
                 (Function.body f)) (\<lambda>o3.
     case decIndent o3 indent of (o4, indent) \<Rightarrow> Inr o4))"

record Import =
  name :: Name
  module :: Name
  base :: Name
  type :: FunctionType

definition Import_print :: "ostream \<Rightarrow> 32 word \<Rightarrow> Import \<Rightarrow> ostream" where
  "Import_print o' indent i =
     FunctionType_print
       (o' @ ''(import '' @ str (Import.name i) @ '' '' @ [CHR 0x22] @ str (Import.module i)
          @ [CHR 0x22] @ '' '' @ [CHR 0x22] @ str (Import.base i) @ [CHR 0x22] @ '' '')
       indent (Import.type i) @ '')''"

record Export =
  name :: Name
  value' :: Var

definition Export_print :: "ostream \<Rightarrow> 32 word \<Rightarrow> Export \<Rightarrow> failure + ostream" where
  "Export_print o' indent e =
     and_then (Var_print (o' @ ''(export '' @ [CHR 0x22] @ str (Export.name e) @ [CHR 0x22] @ '' '')
                 (value' e)) (\<lambda>o1. Inr (o1 @ '')''))"

record Table =
  vars :: "Var list"

fun Table_printVars :: "ostream \<Rightarrow> Var list \<Rightarrow> failure + ostream" where
  "Table_printVars o' [] = Inr o'"
| "Table_printVars o' (var # rest) =
     and_then (Var_print o' var) (\<lambda>o1. Table_printVars (o1 @ '' '') rest)"

definition Table_print :: "ostream \<Rightarrow> 32 word \<Rightarrow> Table \<Rightarrow> failure + ostream" where
  "Table_print o' indent t =
     and_then (Table_printVars (o' @ ''(table '') (vars t)) (\<lambda>o1. Inr (o1 @ '')''))"

subsection \<open>Module\<close>

text \<open>
  Modelled from the spec: the comparison of \<^verbatim>\<open>cashew::IString\<close>, by which
  \<^verbatim>\<open>std::map<Name, Import>\<close> orders its keys, is declared outside the file. Following
  the spec (the collection is name-ordered) names are ordered by their text, as
  \<^verbatim>\<open>strcmp\<close> orders it; two names of the same text, which interning excludes, are
  ordered by their handles.
\<close>

instantiation Name :: linorder
begin

definition less_eq_Name :: "Name \<Rightarrow> Name \<Rightarrow> bool" where
  "less_eq_Name a b = (str a < str b \<or> (str a = str b \<and> handle a \<le> handle b))"

definition less_Name :: "Name \<Rightarrow> Name \<Rightarrow> bool" where
  "less_Name a b = (str a < str b \<or> (str a = str b \<and> handle a < handle b))"

instance
  by standard (auto simp: less_eq_Name_def less_Name_def Name.expand)

end

text \<open>
  A \<^verbatim>\<open>std::map\<close> is a finite mapping; a range-based \<^verbatim>\<open>for\<close> over it visits the
  entries in ascending order of their keys.
\<close>

definition std_map_entries :: "('k::linorder, 'v) mapping \<Rightarrow> ('k \<times> 'v) list" where
  "std_map_entries m =
     List.map_filter (\<lambda>k. map_option (Pair k) (Mapping.lookup m k)) (Mapping.ordered_keys m)"

text \<open>
  The fields of \<^verbatim>\<open>Module\<close>. \<^verbatim>\<open>functions\<close> holds pointers; the resolution map
  \<^verbatim>\<open>std::map<Var, void*> map\<close> is never read or written in the file and is left out.
\<close>

record Module =
  functionTypes :: "FunctionType list"
  imports' :: "(Name, Import) mapping"
  exports :: "Export list"
  table :: Table
  functions' :: "Function option list"
  nextVar :: "32 word"

definition Module_init :: Module where
  "Module_init = \<lparr>functionTypes = [], imports' = Mapping.empty, exports = [],
     table = \<lparr>vars = []\<rparr>, functions' = [], nextVar = 1\<rparr>"

fun Module_printFunctionTypes :: "ostream \<Rightarrow> 32 word \<Rightarrow> FunctionType list \<Rightarrow> ostream" where
  "Module_printFunctionTypes o' indent [] = o'"
| "Module_printFunctionTypes o' indent (curr' # rest) =
     Module_printFunctionTypes (FunctionType_print (doIndent o' indent) indent curr' @ [NL])
       indent rest"

fun Module_printImports :: "ostream \<Rightarrow> 32 word \<Rightarrow> (Name \<times> Import) list \<Rightarrow> ostream" where
  "Module_printImports o' indent [] = o'"
| "Module_printImports o' indent (curr' # rest) =
     Module_printImports (Import_print (doIndent o' indent) indent (snd curr') @ [NL]) indent rest"

fun Module_printExports :: "ostream \<Rightarrow> 32 word \<Rightarrow> Export list \<Rightarrow> failure + ostream" where
  "Module_printExports o' indent [] = Inr o'"
| "Module_printExports o' indent (curr' # rest) =
     and_then (Export_print (doIndent o' indent) indent curr') (\<lambda>o1.
     Module_printExports (o1 @ [NL]) indent rest)"

fun Module_printFunctions ::
    "float_format \<Rightarrow> ostream \<Rightarrow> 32 word \<Rightarrow> Function option list \<Rightarrow> failure + ostream" where
  "Module_printFunctions fm o' indent [] = Inr o'"
| "Module_printFunctions fm o' indent (None # rest) = Inl NullDereference"
| "Module_printFunctions fm o' indent (Some curr' # rest) =
     and_then (Function_print fm (doIndent o' indent) indent curr') (\<lambda>o1.
     Module_printFunctions fm (o1 @ [NL]) indent rest)"

text \<open>A declaration's text as a line of the module: indented once, ended by a line break.\<close>

definition module_line :: "string \<Rightarrow> string" where
  "module_line s = ''  '' @ s @ [NL]"

text \<open>
  \<^verbatim>\<open>Module::print\<close> starts at \<^verbatim>\<open>indent = 0\<close> and ends without a \<^verbatim>\<open>return\<close>
  statement.
\<close>

definition Module_print :: "float_format \<Rightarrow> ostream \<Rightarrow> Module \<Rightarrow> failure + ostream" where
  "Module_print fm o' m =
    (case incIndent (o' @ ''(module'') 0 of (o1, indent) \<Rightarrow>
     and_then (Module_printExports
                 (Module_printImports
                    (Module_printFunctionTypes o1 indent (functionTypes m)) indent
                    (std_map_entries (imports' m)))
                 indent (exports m)) (\<lambda>o2.
     and_then (Table_print (doIndent o2 indent) indent (table m)) (\<lambda>o3.
     and_then (Module_printFunctions fm (o3 @ [NL]) indent (functions' m)) (\<lambda>o4.
     case decIndent o4 indent of (o5, indent) \<Rightarrow> Inl (MissingReturn (o5 @ [NL]))))))"


subsection \<open>Arena\<close>

text \<open>
  A chunk is the array of \<^verbatim>\<open>new char[CHUNK]\<close>; a pointer into the arena is the number of
  its chunk in \<^verbatim>\<open>chunks\<close> and the offset in that chunk. The type \<^verbatim>\<open>T\<close> of
  \<^verbatim>\<open>alloc<T>\<close> is given by the bytes that \<^verbatim>\<open>new (ret) T()\<close> writes, \<^verbatim>\<open>sizeof(T)\<close>
  is their number as a \<^verbatim>\<open>size_t\<close>. The bytes of a new chunk are indeterminate in C++ and
  zero here. \<^verbatim>\<open>index\<close> is an \<^verbatim>\<open>int\<close>: it is converted to \<^verbatim>\<open>size_t\<close> for the
  comparison and back for the assignment. The offset of the returned pointer reads
  \<^verbatim>\<open>index\<close> as a number that is not negative, which it is in every arena that
  \<^verbatim>\<open>alloc\<close> has produced.
\<close>

type_synonym chunk = "8 word list"

type_synonym object = "8 word list"

type_synonym pointer = "nat \<times> nat"

record Arena =
  chunks :: "chunk list"
  index :: "32 word"

definition CHUNK :: "64 word" where
  "CHUNK = 10000"

definition sizeof :: "object \<Rightarrow> 64 word" where
  "sizeof T = of_nat (length T)"

definition currSize :: "object \<Rightarrow> 64 word" where
  "currSize T = (sizeof T + 7) AND (- 8)"

definition new_chunk :: chunk where
  "new_chunk = replicate (unat CHUNK) 0"

fun store_bytes :: "chunk \<Rightarrow> nat \<Rightarrow> 8 word list \<Rightarrow> chunk" where
  "store_bytes c off [] = c"
| "store_bytes c off (b # bs) = store_bytes (c[off := b]) (Suc off) bs"

definition alloc :: "Arena \<Rightarrow> object \<Rightarrow> failure + (pointer \<times> Arena)" where
  "alloc A T =
     (if \<not> currSize T < CHUNK then Inl AssertionFailure
      else
        let A1 = (if length (chunks A) = 0 \<or> scast (index A) + currSize T \<ge> CHUNK
                  then A\<lparr>chunks := chunks A @ [new_chunk], index := 0\<rparr> else A);
            ret = (length (chunks A1) - 1, unat (index A1));
            A2 = A1\<lparr>index := ucast (scast (index A1) + currSize T)\<rparr>;
            A3 = A2\<lparr>chunks := (chunks A2)[fst ret := store_bytes (chunks A2 ! fst ret) (snd ret) T]\<rparr>
        in Inr (ret, A3))"

definition clear :: "Arena \<Rightarrow> Arena" where
  "clear A = A\<lparr>chunks := []\<rparr>"

text \<open>Reading \<open>n\<close> bytes through a pointer, and a run of allocations, one after the other.\<close>

definition load_bytes :: "Arena \<Rightarrow> pointer \<Rightarrow> nat \<Rightarrow> 8 word list" where
  "load_bytes A p n = take n (drop (snd p) (chunks A ! fst p))"

fun alloc_all :: "Arena \<Rightarrow> object list \<Rightarrow> failure + (pointer list \<times> Arena)" where
  "alloc_all A [] = Inr ([], A)"
| "alloc_all A (T # Ts) =
     and_then (alloc A T) (\<lambda>(p, A1).
     and_then (alloc_all A1 Ts) (\<lambda>(ps, A2). Inr (p # ps, A2)))"

text \<open>
  A pointer \<open>p\<close> to \<open>n\<close> bytes is valid in \<open>A\<close> when the bytes lie in a chunk of \<open>A\<close>, below
  \<^verbatim>\<open>index\<close> if the chunk is the last one. The arena is consistent when its chunks have
  \<^verbatim>\<open>CHUNK\<close> bytes and \<^verbatim>\<open>index\<close> points into the last one; the arena before the first
  allocation has no chunk, whatever \<^verbatim>\<open>index\<close> holds.
\<close>

definition valid :: "Arena \<Rightarrow> pointer \<Rightarrow> nat \<Rightarrow> bool" where
  "valid A p n =
     (fst p < length (chunks A) \<and> snd p + n \<le> unat CHUNK \<and>
      (fst p = length (chunks A) - 1 \<and> snd p + n \<le> unat (index A) \<or>
       fst p < length (chunks A) - 1))"

definition consistent :: "Arena \<Rightarrow> bool" where
  "consistent A =
     (list_all (\<lambda>c. length c = unat CHUNK) (chunks A) \<and>
      (chunks A = [] \<or> unat (index A) < unat CHUNK))"

subsection \<open>What a well-laid-out text is\<close>

text \<open>
  The text of a form is read character by character; \<open>k\<close> forms enclose it, and the reader
  counts the forms that the text itself has opened and not closed (\<open>d\<close>). At the start of
  a line the reader counts the blanks (\<open>LineStart n d\<close>: \<open>n\<close> blanks read); the first
  other character must stand at two blanks for each open form, a closing parenthesis at
  the indentation of the line that opened its form, one level less. Inside a line
  (\<open>Mid d\<close>) the parentheses are counted, and none closes a form that the text did not
  open. \<open>None\<close>: the text is not well laid out.
\<close>

datatype layout = LineStart nat nat | Mid nat

fun step :: "nat \<Rightarrow> layout \<Rightarrow> char \<Rightarrow> layout option" where
  "step k (LineStart n d) c =
     (if c = CHR '' '' then Some (LineStart (Suc n) d)
      else if c = NL then None
      else if c = CHR '')''
        then (if 0 < d \<and> n = 2 * (k + d - 1) then Some (Mid (d - 1)) else None)
      else if c = CHR ''('' then (if n = 2 * (k + d) then Some (Mid (Suc d)) else None)
      else (if n = 2 * (k + d) then Some (Mid d) else None))"
| "step k (Mid d) c =
     (if c = NL then Some (LineStart 0 d)
      else if c = CHR '')'' then (if 0 < d then Some (Mid (d - 1)) else None)
      else if c = CHR ''('' then Some (Mid (Suc d))
      else Some (Mid d))"

fun scan :: "nat \<Rightarrow> layout \<Rightarrow> string \<Rightarrow> layout option" where
  "scan k st [] = Some st"
| "scan k st (c # cs) = (case step k st c of None \<Rightarrow> None | Some st' \<Rightarrow> scan k st' cs)"

text \<open>
  \<open>laid_out k s\<close>: \<open>s\<close> is a form written where \<open>k\<close> forms are open, after the blanks of
  its line, and ends inside the line on which its last parenthesis closes.
\<close>

definition laid_out :: "nat \<Rightarrow> string \<Rightarrow> bool" where
  "laid_out k s = (scan k (LineStart (2 * k) 0) s = Some (Mid 0))"

fun depth_after :: "nat \<Rightarrow> string \<Rightarrow> nat option" where
  "depth_after d [] = Some d"
| "depth_after d (c # cs) =
     (if c = CHR ''('' then depth_after (Suc d) cs
      else if c = CHR '')'' then (if 0 < d then depth_after (d - 1) cs else None)
      else depth_after d cs)"

definition balanced :: "string \<Rightarrow> bool" where
  "balanced s = (depth_after 0 s = Some 0)"

definition clean :: "string \<Rightarrow> bool" where
  "clean s = (CHR ''('' \<notin> set s \<and> CHR '')'' \<notin> set s \<and> NL \<notin> set s)"

fun clean_Var :: "Var \<Rightarrow> bool" where
  "clean_Var (Var_of_num n) = True"
| "clean_Var (Var_of_str s) = clean (str s)"

text \<open>
  The identifiers that \<^verbatim>\<open>print\<close> writes for a node itself. An identifier is
  constructed when one of the three constructors of \<^verbatim>\<open>Var\<close> has made it.
\<close>

fun vars_of :: "Expression \<Rightarrow> Var list" where
  "vars_of (Block var list) = [var]"
| "vars_of (Loop out' in' body') = [out', in']"
| "vars_of (Break var condition val) = [var]"
| "vars_of (Switch var val cases dflt) = [var]"
| "vars_of (Call target operands) = [target]"
| "vars_of (CallImport target operands) = [target]"
| "vars_of (GetLocal id') = [id']"
| "vars_of (SetLocal id' val) = [id']"
| "vars_of e = []"

fun constructed :: "Var \<Rightarrow> bool" where
  "constructed (Var_of_num n) = (Var_of_num n = Var_default \<or> Var_num n = Inr (Var_of_num n))"
| "constructed (Var_of_str s) = (Var_name s = Inr (Var_of_str s))"

text \<open>
  \<open>childless e\<close>: \<^verbatim>\<open>print\<close> of the node \<open>e\<close> reaches no call of
  \<^verbatim>\<open>printFullLine\<close> and is not \<^verbatim>\<open>Const::print\<close>: a \<^verbatim>\<open>Nop\<close>, a
  \<^verbatim>\<open>GetLocal\<close>, a \<^verbatim>\<open>Block\<close> or a call without elements, a \<^verbatim>\<open>Break\<close> with
  neither condition nor value.
\<close>

fun childless :: "Expression \<Rightarrow> bool" where
  "childless Nop = True"
| "childless (Block var list) = (list = [])"
| "childless (Break var condition val) = (condition = None \<and> val = None)"
| "childless (Call target operands) = (operands = [])"
| "childless (CallImport target operands) = (operands = [])"
| "childless (GetLocal id') = True"
| "childless e = False"

text \<open>\<open>framed f\<close>: what the writer \<open>f\<close> does depends on the stream only by appending to it.\<close>

definition framed :: "(ostream \<Rightarrow> failure + ostream) \<Rightarrow> bool" where
  "framed f = (\<exists>m. \<forall>o'. f o' = (case m of Inl e \<Rightarrow> Inl e | Inr s \<Rightarrow> Inr (o' @ s)))"

section \<open>Properties\<close>

subsection \<open>Sequencing and the decimal rendering\<close>

lemma and_then_Inr [simp]: "and_then (Inr x) f = f x"
  by (simp add: and_then_def)

lemma and_then_Inl [simp]: "and_then (Inl e) f = Inl e"
  by (simp add: and_then_def)

lemma and_then_eq_Inr: "and_then m f = Inr y \<longleftrightarrow> (\<exists>x. m = Inr x \<and> f x = Inr y)"
  by (cases m) simp_all

lemma digit_value_digit: "n < 10 \<Longrightarrow> digit_value (digit n) = n"
proof -
  assume "n < 10"
  then have "n \<in> {0,1,2,3,4,5,6,7,8,9}" by auto
  then show ?thesis by (auto simp: digit_def digit_value_def)
qed

lemma is_digit_digit: "n < 10 \<Longrightarrow> is_digit (digit n)"
proof -
  assume "n < 10"
  then have "n \<in> {0,1,2,3,4,5,6,7,8,9}" by auto
  then show ?thesis by (auto simp: digit_def is_digit_def)
qed

lemma read_decimal_snoc: "read_decimal (s @ [c]) = 10 * read_decimal s + digit_value c"
  by (simp add: read_decimal_def)

lemma read_decimal_decimal: "read_decimal (decimal n) = n"
proof (induction n rule: decimal.induct)
  case (1 n)
  show ?case
  proof (cases "n < 10")
    case True
    then show ?thesis
      by (simp add: decimal.simps [of n] read_decimal_def digit_value_digit)
  next
    case False
    with 1 have "read_decimal (decimal (n div 10)) = n div 10" by simp
    with False show ?thesis
      by (simp add: decimal.simps [of n] read_decimal_snoc digit_value_digit)
  qed
qed

lemma digits_decimal: "list_all is_digit (decimal n)"
proof (induction n rule: decimal.induct)
  case (1 n)
  then show ?case
    by (cases "n < 10") (simp_all add: decimal.simps [of n] is_digit_digit)
qed

subsection \<open>Identifiers\<close>

text \<open>
  C3. An identifier built from a number of the range (above zero, below \<open>MAX_NUM\<close>) prints
  as that number in decimal (\<open>decimal\<close>, which \<open>read_decimal\<close> reads back by
  \<open>read_decimal_decimal\<close>); an identifier built from a name prints as the text of the
  name, and the construction succeeds for every name whose storage reads above \<open>MAX_NUM\<close>;
  the default-constructed identifier is not reported as set.
\<close>

theorem Var_round_trip:
  "(0 < n \<and> n < MAX_NUM \<longrightarrow>
      (\<exists>v. Var_num n = Inr v \<and> Var_print o' v = Inr (o' @ decimal (unat n))))
   \<and> (MAX_NUM < handle s \<longrightarrow>
      (\<exists>v. Var_name s = Inr v \<and> Var_print o' v = Inr (o' @ str s)))
   \<and> (\<forall>v. Var_name s = Inr v \<longrightarrow> Var_print o' v = Inr (o' @ str s))
   \<and> \<not> Var_is Var_default"
  by (auto simp: Var_num_def Var_name_def Var_is_def Var_default_def put_unsigned_def
      split: if_splits)

theorem Var_round_trip_witness:
  "Var_num 42 = Inr (Var_of_num 42) \<and> Var_print ''x'' (Var_of_num 42) = Inr ''x42''
   \<and> Var_name (IString 2000000 ''$f'') = Inr (Var_of_str (IString 2000000 ''$f''))
   \<and> Var_print ''x'' (Var_of_str (IString 2000000 ''$f'')) = Inr ''x$f''
   \<and> \<not> Var_is Var_default"
  using Var_round_trip [of 42 "''x''" "IString 2000000 ''$f''"]
  by (simp add: Var_num_def Var_name_def MAX_NUM_def decimal.simps digit_def)

text \<open>
  C8. The constructor from a number fails its assertion for every number outside the open
  range from zero to \<open>MAX_NUM\<close>, the constructor from a name fails it for every name
  whose storage reads below \<open>MAX_NUM\<close>, and for one that reads \<open>MAX_NUM\<close>
  itself; an identifier that was constructed from a number reads strictly inside the range
  and one that was constructed from a name strictly above it, so the two kinds cannot be
  confused.
\<close>

theorem Var_construction_contract:
  "(\<not> (0 < n \<and> n < MAX_NUM) \<longrightarrow> Var_num n = Inl AssertionFailure)
   \<and> (handle s \<le> MAX_NUM \<longrightarrow> Var_name s = Inl AssertionFailure)
   \<and> (\<forall>v. Var_num n = Inr v \<longrightarrow> v = Var_of_num n \<and> 0 < num v \<and> num v < MAX_NUM)
   \<and> (\<forall>v. Var_name s = Inr v \<longrightarrow> v = Var_of_str s \<and> MAX_NUM < num v)"
proof (intro conjI allI impI)
  assume "\<not> (0 < n \<and> n < MAX_NUM)"
  then show "Var_num n = Inl AssertionFailure"
    by (simp add: Var_num_def)
next
  assume "handle s \<le> MAX_NUM"
  then have "\<not> MAX_NUM < handle s"
    by (simp add: not_less)
  then show "Var_name s = Inl AssertionFailure"
    by (simp add: Var_name_def)
next
  fix v assume v: "Var_num n = Inr v"
  then have range: "0 < n \<and> n < MAX_NUM"
    by (cases "0 < n \<and> n < MAX_NUM") (simp_all add: Var_num_def)
  with v show "v = Var_of_num n"
    by (simp add: Var_num_def)
  with range show "0 < num v" "num v < MAX_NUM"
    by simp_all
next
  fix v assume v: "Var_name s = Inr v"
  then have above: "MAX_NUM < handle s"
    by (cases "MAX_NUM < handle s") (simp_all add: Var_name_def)
  with v show "v = Var_of_str s"
    by (simp add: Var_name_def)
  with above show "MAX_NUM < num v"
    by simp
qed

theorem Var_construction_contract_witness:
  "Var_num 0 = Inl AssertionFailure \<and> Var_num 1000000 = Inl AssertionFailure
   \<and> Var_name (IString 999999 ''f'') = Inl AssertionFailure
   \<and> Var_num 5 = Inr (Var_of_num 5) \<and> num (Var_of_num 5) < MAX_NUM
   \<and> Var_name (IString 1000001 ''f'') = Inr (Var_of_str (IString 1000001 ''f''))
   \<and> MAX_NUM < num (Var_of_str (IString 1000001 ''f''))"
proof -
  note lo = Var_construction_contract [of 0 "IString 999999 ''f''"]
  note hi = Var_construction_contract [of 1000000 "IString 1000001 ''f''"]
  note ok = Var_construction_contract [of 5 "IString 1000001 ''f''"]
  have "\<not> (0 < (0 :: 32 word) \<and> (0 :: 32 word) < MAX_NUM)"
    by simp
  with lo have a: "Var_num 0 = Inl AssertionFailure"
    by blast
  have "\<not> (0 < (1000000 :: 32 word) \<and> (1000000 :: 32 word) < MAX_NUM)"
    by (simp add: MAX_NUM_def)
  with hi have b: "Var_num 1000000 = Inl AssertionFailure"
    by blast
  have "handle (IString 999999 ''f'') \<le> MAX_NUM"
    by (simp add: MAX_NUM_def)
  with lo have c: "Var_name (IString 999999 ''f'') = Inl AssertionFailure"
    by blast
  have d: "Var_num 5 = Inr (Var_of_num 5)"
    by (simp add: Var_num_def MAX_NUM_def)
  with ok have e: "num (Var_of_num 5) < MAX_NUM"
    by blast
  have f: "Var_name (IString 1000001 ''f'') = Inr (Var_of_str (IString 1000001 ''f''))"
    by (simp add: Var_name_def MAX_NUM_def)
  with ok have g: "MAX_NUM < num (Var_of_str (IString 1000001 ''f''))"
    by blast
  from a b c d e f g show ?thesis
    by blast
qed

subsection \<open>Literals, constants and operators\<close>

text \<open>
  C6. Printing a literal of type \<open>none\<close> aborts; printing a literal of type \<open>i32\<close>,
  \<open>i64\<close>, \<open>f32\<close> or \<open>f64\<close> succeeds and appends the payload of that type.
\<close>

theorem Literal_print_by_tag:
  "(Literal_type l = none \<longrightarrow> Literal_print fm o' l = Inl Abort)
   \<and> (Literal_type l = i32 \<longrightarrow>
        (\<exists>v. l = Literal_i32 v \<and> Literal_print fm o' l = Inr (o' @ signed_decimal (sint v))))
   \<and> (Literal_type l = i64 \<longrightarrow>
        (\<exists>v. l = Literal_i64 v \<and> Literal_print fm o' l = Inr (o' @ signed_decimal (sint v))))
   \<and> (Literal_type l = f32 \<longrightarrow>
        (\<exists>v. l = Literal_f32 v \<and> Literal_print fm o' l = Inr (o' @ show_float fm v)))
   \<and> (Literal_type l = f64 \<longrightarrow>
        (\<exists>v. l = Literal_f64 v \<and> Literal_print fm o' l = Inr (o' @ show_double fm v)))"
  by (cases l) simp_all

theorem Literal_print_by_tag_witness:
  "Literal_print \<lparr>show_float = (\<lambda>w. ''0''), show_double = (\<lambda>w. ''0'')\<rparr> ''x'' Literal_default
     = Inl Abort
   \<and> Literal_print \<lparr>show_float = (\<lambda>w. ''0''), show_double = (\<lambda>w. ''0'')\<rparr> ''x'' (Literal_i32 5)
     = Inr (''x'' @ signed_decimal (sint (5 :: 32 word)))
   \<and> Literal_print \<lparr>show_float = (\<lambda>w. ''0''), show_double = (\<lambda>w. ''0'')\<rparr> ''x'' (Literal_f64 1)
     = Inr ''x0''"
  using
    Literal_print_by_tag [of Literal_default
      "\<lparr>show_float = (\<lambda>w. ''0''), show_double = (\<lambda>w. ''0'')\<rparr>" "''x''"]
    Literal_print_by_tag [of "Literal_i32 5"
      "\<lparr>show_float = (\<lambda>w. ''0''), show_double = (\<lambda>w. ''0'')\<rparr>" "''x''"]
    Literal_print_by_tag [of "Literal_f64 1"
      "\<lparr>show_float = (\<lambda>w. ''0''), show_double = (\<lambda>w. ''0'')\<rparr>" "''x''"]
  by simp

subsection \<open>Indentation\<close>

lemma doIndent_loop_replicate:
  "i \<le> indent \<Longrightarrow>
   doIndent_loop o' i indent = o' @ concat (replicate (unat indent - unat i) ''  '')"
proof (induction o' i indent rule: doIndent_loop.induct)
  case (1 o' i indent)
  show ?case
  proof (cases "i < indent")
    case True
    then have lt: "unat i < unat indent"
      by (simp add: word_less_nat_alt)
    moreover have "unat indent < 2 ^ 32"
      using unsigned_less [of indent] by simp
    ultimately have "unat i + unat (1 :: 32 word) < 2 ^ LENGTH(32)"
      by simp
    then have suc: "unat (i + 1) = unat i + unat (1 :: 32 word)"
      by (simp only: unat_add_lem)
    with lt have le: "i + 1 \<le> indent"
      by (simp add: word_le_nat_alt)
    from lt obtain k where k: "unat indent - unat i = Suc k"
      by (metis Suc_diff_Suc)
    with suc have k': "unat indent - unat (i + 1) = k"
      by simp
    from 1(1) [OF True le] True k k' show ?thesis
      by (simp add: doIndent_loop.simps [of o' i indent])
  next
    case False
    with 1(2) have "i = indent"
      by simp
    then show ?thesis
      by (simp add: doIndent_loop.simps [of o' indent indent])
  qed
qed

lemma concat_replicate_spaces: "concat (replicate n ''  '') = replicate (2 * n) CHR '' ''"
  by (induction n) simp_all

lemma doIndent_eq: "doIndent o' indent = o' @ replicate (2 * unat indent) CHR '' ''"
  by (simp add: doIndent_def doIndent_loop_replicate concat_replicate_spaces)

text \<open>
  C9. Printing a \<^verbatim>\<open>Unary\<close> node aborts for every operator but \<open>Neg\<close>, printing a
  \<^verbatim>\<open>Convert\<close> node aborts for every operator but \<open>ConvertSInt32\<close>,
  \<open>ConvertUInt32\<close> and \<open>TruncSFloat64\<close>. With these four operators the printer does not
  abort: it writes the head of the form and goes on to the line of the operand, where
  \<^verbatim>\<open>printFullLine\<close> ends without a \<^verbatim>\<open>return\<close> statement.
\<close>

theorem Unary_Convert_print_partial:
  "(op \<noteq> Neg \<longrightarrow> print fm o' indent (Unary op val) = Inl Abort)
   \<and> (cop \<noteq> ConvertSInt32 \<and> cop \<noteq> ConvertUInt32 \<and> cop \<noteq> TruncSFloat64 \<longrightarrow>
        print fm o' indent (Convert cop val) = Inl Abort)
   \<and> print fm o' indent (Unary Neg (Some Nop))
       = Inl (MissingReturn
           (doIndent (o' @ ''(unary neg'' @ [NL]) (indent + 1) @ ''nop'' @ [NL]))
   \<and> print fm o' indent (Convert ConvertSInt32 (Some Nop))
       = Inl (MissingReturn
           (doIndent (o' @ ''(convert sint32toDouble'' @ [NL]) (indent + 1) @ ''nop'' @ [NL]))
   \<and> print fm o' indent (Convert ConvertUInt32 (Some Nop))
       = Inl (MissingReturn
           (doIndent (o' @ ''(convert uint32toDouble'' @ [NL]) (indent + 1) @ ''nop'' @ [NL]))
   \<and> print fm o' indent (Convert TruncSFloat64 (Some Nop))
       = Inl (MissingReturn
           (doIndent (o' @ ''(convert float64tosint32'' @ [NL]) (indent + 1) @ ''nop'' @ [NL]))"
proof (intro conjI impI)
  assume "op \<noteq> Neg"
  then have "UnaryOp_text op = Inl Abort"
    by (cases op) simp_all
  then show "print fm o' indent (Unary op val) = Inl Abort"
    by simp
next
  assume "cop \<noteq> ConvertSInt32 \<and> cop \<noteq> ConvertUInt32 \<and> cop \<noteq> TruncSFloat64"
  then have "ConvertOp_text cop = Inl Abort"
    by (cases cop) simp_all
  then show "print fm o' indent (Convert cop val) = Inl Abort"
    by simp
qed (simp_all add: incIndent_def)

theorem Unary_Convert_print_partial_witness:
  "print \<lparr>show_float = (\<lambda>w. ''0''), show_double = (\<lambda>w. ''0'')\<rparr> [] 0 (Unary Clz (Some Nop))
     = Inl Abort
   \<and> print \<lparr>show_float = (\<lambda>w. ''0''), show_double = (\<lambda>w. ''0'')\<rparr> [] 0
       (Convert WrapInt64 (Some Nop)) = Inl Abort"
  using Unary_Convert_print_partial [of Clz
      "\<lparr>show_float = (\<lambda>w. ''0''), show_double = (\<lambda>w. ''0'')\<rparr>" "[]" 0 "Some Nop" WrapInt64]
  by simp

lemma replicate_numeral_unfold: "replicate (numeral k) x = x # replicate (pred_numeral k) x"
  by (simp add: numeral_eq_Suc)

lemma doIndent_concat: "doIndent o' indent = o' @ concat (replicate (unat indent) ''  '')"
  by (simp add: doIndent_def doIndent_loop_replicate)

lemmas print_eval = incIndent_def decIndent_def doIndent_concat replicate_numeral_unfold
  put_unsigned_def put_int_def put_bool_def signed_decimal_def decimal.simps digit_def

text \<open>
  C10. \<^verbatim>\<open>Literal()\<close> has type \<open>none\<close>, so the \<^verbatim>\<open>Const\<close> that the arena constructs
  holds a literal of type \<open>none\<close> and printing it aborts; printing a \<^verbatim>\<open>Const\<close> aborts
  exactly when its literal has type \<open>none\<close>. After \<^verbatim>\<open>Const::set\<close> with a typed literal
  the form \<^verbatim>\<open>(literal v)\<close> is written, and then \<^verbatim>\<open>Const::print\<close> ends without a
  \<^verbatim>\<open>return\<close> statement.
\<close>

theorem Const_default_not_printable:
  "Literal_type Literal_default = none
   \<and> Const_default = Const Literal_default
   \<and> print fm o' indent Const_default = Inl Abort
   \<and> (print fm o' indent (Const l) = Inl Abort \<longleftrightarrow> Literal_type l = none)
   \<and> (Literal_type l \<noteq> none \<longrightarrow>
        (\<exists>t. Literal_print fm [] l = Inr t
           \<and> print fm o' indent (Const_set Const_default l)
               = Inl (MissingReturn (o' @ ''(literal '' @ t @ '')''))))"
  by (cases l) (simp_all add: Const_default_def)

theorem Const_default_not_printable_witness:
  "print \<lparr>show_float = (\<lambda>w. ''0''), show_double = (\<lambda>w. ''0'')\<rparr> [] 0 Const_default = Inl Abort
   \<and> print \<lparr>show_float = (\<lambda>w. ''0''), show_double = (\<lambda>w. ''0'')\<rparr> [] 0
        (Const_set Const_default (Literal_i32 3)) = Inl (MissingReturn ''(literal 3)'')"
proof -
  let ?fm = "\<lparr>show_float = (\<lambda>w. ''0''), show_double = (\<lambda>w. ''0'')\<rparr>"
  note t = Const_default_not_printable [of ?fm "[]" 0 "Literal_i32 3"]
  from t have a: "print ?fm [] 0 Const_default = Inl Abort"
    by blast
  have "Literal_type (Literal_i32 3) \<noteq> none"
    by simp
  with t obtain s where s: "Literal_print ?fm [] (Literal_i32 3) = Inr s"
    and p: "print ?fm [] 0 (Const_set Const_default (Literal_i32 3))
      = Inl (MissingReturn ([] @ ''(literal '' @ s @ '')''))"
    by blast
  from s have "s = ''3''"
    by (simp add: print_eval)
  with p a show ?thesis
    by simp
qed

subsection \<open>Lines of children\<close>

text \<open>
  \<^verbatim>\<open>printFullLine\<close> never returns: a null pointer is dereferenced, the expression does
  not print, or control reaches the closing brace, where there is no \<^verbatim>\<open>return\<close>
  statement. So the loop over a list of expressions returns only when the list is empty.
\<close>

lemma printFullLine_never_returns: "printFullLine fm o' indent p \<noteq> Inr r"
  by (cases p) (simp_all add: and_then_eq_Inr)

lemma printFullLine_fails: "\<exists>f. printFullLine fm o' indent p = Inl f"
proof (cases "printFullLine fm o' indent p")
  case (Inl f)
  then show ?thesis by simp
next
  case (Inr r)
  with printFullLine_never_returns [of fm o' indent p r] show ?thesis
    by simp
qed

lemma printFullLines_never_returns: "list \<noteq> [] \<Longrightarrow> printFullLines fm o' indent list \<noteq> Inr r"
  by (cases list) (simp_all add: and_then_eq_Inr printFullLine_never_returns)

subsection \<open>Memory access\<close>

text \<open>
  C5. A \<^verbatim>\<open>Store\<close> node writes the tag \<^verbatim>\<open>load\<close>, the tag of \<^verbatim>\<open>Load\<close> nodes, not
  \<^verbatim>\<open>store\<close>: the head of its form is \<^verbatim>\<open>(load\<close>, the bytes, two blanks, the offset
  and the alignment, and then the line of the address is printed (where
  \<^verbatim>\<open>printFullLine\<close> ends without a \<^verbatim>\<open>return\<close> statement). For a node of four bytes,
  offset 0 and alignment 4 with two \<^verbatim>\<open>Nop\<close> children the stream holds the head and the
  line of the address.
\<close>

theorem Store_print_tag_is_load:
  "print fm o' indent (Store bytes offset align ptr val)
     = printFullLine fm
         (o' @ ''(load '' @ decimal (unat bytes) @ ''  '' @ signed_decimal (sint offset)
            @ '' '' @ decimal (unat align) @ [NL])
         (indent + 1) ptr
   \<and> print \<lparr>show_float = (\<lambda>w. ''0''), show_double = (\<lambda>w. ''0'')\<rparr> [] 0
       (Store 4 0 4 (Some Nop) (Some Nop))
     = Inl (MissingReturn (''(load 4  0 4'' @ [NL] @ ''  nop'' @ [NL]))"
proof
  from printFullLine_fails obtain f where "printFullLine fm
      (o' @ ''(load '' @ decimal (unat bytes) @ ''  '' @ signed_decimal (sint offset)
         @ '' '' @ decimal (unat align) @ [NL])
      (indent + 1) ptr = Inl f"
    by blast
  then show "print fm o' indent (Store bytes offset align ptr val)
     = printFullLine fm
         (o' @ ''(load '' @ decimal (unat bytes) @ ''  '' @ signed_decimal (sint offset)
            @ '' '' @ decimal (unat align) @ [NL])
         (indent + 1) ptr"
    by (simp add: incIndent_def put_unsigned_def put_int_def and_then_def)
next
  show "print \<lparr>show_float = (\<lambda>w. ''0''), show_double = (\<lambda>w. ''0'')\<rparr> [] 0
       (Store 4 0 4 (Some Nop) (Some Nop))
     = Inl (MissingReturn (''(load 4  0 4'' @ [NL] @ ''  nop'' @ [NL]))"
    by (simp add: print_eval)
qed

subsection \<open>Function types\<close>

lemma FunctionType_eq_loop_iff:
  "length ps = length qs \<Longrightarrow> i \<le> length ps \<Longrightarrow>
   FunctionType_eq_loop ps qs i \<longleftrightarrow> drop i ps = drop i qs"
proof (induction ps qs i rule: FunctionType_eq_loop.induct)
  case (1 ps qs i)
  show ?case
  proof (cases "i < length ps")
    case True
    with 1(2) have dp: "drop i ps = ps ! i # drop (Suc i) ps"
      and dq: "drop i qs = qs ! i # drop (Suc i) qs"
      by (simp_all add: Cons_nth_drop_Suc)
    show ?thesis
    proof (cases "ps ! i = qs ! i")
      case same: True
      with 1(1) [OF True] 1(2) True
      have "FunctionType_eq_loop ps qs (Suc i) \<longleftrightarrow> drop (Suc i) ps = drop (Suc i) qs"
        by simp
      with True same dp dq show ?thesis
        by (simp add: FunctionType_eq_loop.simps [of ps qs i])
    next
      case False
      with True dp dq show ?thesis
        by (simp add: FunctionType_eq_loop.simps [of ps qs i])
    qed
  next
    case False
    with 1(3) have "i = length ps"
      by simp
    with 1(2) show ?thesis
      by (subst FunctionType_eq_loop.simps) simp
  qed
qed

lemma FunctionType_eq_fields:
  "FunctionType_eq a b \<longleftrightarrow>
     FunctionType.name a = FunctionType.name b \<and> FunctionType.result a = FunctionType.result b
     \<and> FunctionType.params a = FunctionType.params b"
proof (cases "length (FunctionType.params a) = length (FunctionType.params b)")
  case True
  then show ?thesis
    using FunctionType_eq_loop_iff [of "FunctionType.params a" "FunctionType.params b" 0]
    by (simp add: FunctionType_eq_def)
next
  case False
  then have "FunctionType.params a \<noteq> FunctionType.params b"
    by auto
  with False show ?thesis
    by (simp add: FunctionType_eq_def)
qed

text \<open>
  C4. \<^verbatim>\<open>operator==\<close> of \<^verbatim>\<open>FunctionType\<close> is reflexive and symmetric and holds
  exactly when the two signatures have the same name, the same result type and the same
  list of parameter types, in order; signatures that differ in the name alone, or in the
  order of the parameters alone, are unequal.
\<close>

theorem FunctionType_equality:
  "FunctionType_eq a a
   \<and> (FunctionType_eq a b \<longleftrightarrow> FunctionType_eq b a)
   \<and> (FunctionType_eq a b \<longleftrightarrow>
        FunctionType.name a = FunctionType.name b \<and> FunctionType.result a = FunctionType.result b
        \<and> FunctionType.params a = FunctionType.params b)
   \<and> (FunctionType_neq a b \<longleftrightarrow> \<not> FunctionType_eq a b)
   \<and> (FunctionType.name a \<noteq> FunctionType.name b \<longrightarrow> \<not> FunctionType_eq a b)
   \<and> (FunctionType.params a \<noteq> FunctionType.params b \<longrightarrow> \<not> FunctionType_eq a b)"
  by (auto simp: FunctionType_eq_fields FunctionType_neq_def)

theorem FunctionType_equality_witness:
  "\<not> FunctionType_eq
       \<lparr>FunctionType.name = IString 2000000 ''f'', result = i32, params = [i32, f64]\<rparr>
       \<lparr>FunctionType.name = IString 2000008 ''g'', result = i32, params = [i32, f64]\<rparr>
   \<and> \<not> FunctionType_eq
       \<lparr>FunctionType.name = IString 2000000 ''f'', result = i32, params = [i32, f64]\<rparr>
       \<lparr>FunctionType.name = IString 2000000 ''f'', result = i32, params = [f64, i32]\<rparr>
   \<and> FunctionType_eq
       \<lparr>FunctionType.name = IString 2000000 ''f'', result = i32, params = [i32, f64]\<rparr>
       \<lparr>FunctionType.name = IString 2000000 ''f'', result = i32, params = [i32, f64]\<rparr>"
proof -
  let ?f = "\<lparr>FunctionType.name = IString 2000000 ''f'', result = i32, params = [i32, f64]\<rparr>"
  let ?g = "\<lparr>FunctionType.name = IString 2000008 ''g'', result = i32, params = [i32, f64]\<rparr>"
  let ?h = "\<lparr>FunctionType.name = IString 2000000 ''f'', result = i32, params = [f64, i32]\<rparr>"
  have "FunctionType.name ?f \<noteq> FunctionType.name ?g"
    by simp
  with FunctionType_equality [of ?f ?g] have a: "\<not> FunctionType_eq ?f ?g"
    by blast
  have "FunctionType.params ?f \<noteq> FunctionType.params ?h"
    by simp
  with FunctionType_equality [of ?f ?h] have b: "\<not> FunctionType_eq ?f ?h"
    by blast
  from FunctionType_equality [of ?f ?f] have c: "FunctionType_eq ?f ?f"
    by blast
  from a b c show ?thesis
    by blast
qed

subsection \<open>The arena\<close>

lemma and_not_mask_split:
  fixes y :: "64 word"
  shows "(y AND NOT (mask 3)) + take_bit 3 y = y"
proof -
  have "y AND NOT (mask 3) = push_bit 3 (drop_bit 3 y)"
    by (rule bit_eqI) (auto simp: bit_simps)
  then show ?thesis
    by (simp add: bits_ident)
qed

lemma round_down_ge:
  fixes y :: "64 word"
  shows "unat y \<le> unat (y AND (- 8)) + 7"
proof -
  have m8: "(- 8 :: 64 word) = NOT (mask 3)"
    using minus_exp_eq_not_mask [of 3, where ?'a = "64 word"] by simp
  let ?a = "y AND NOT (mask 3)"
  have "?a \<le> y"
    by (rule word_and_le2)
  then have "?a \<le> ?a + take_bit 3 y"
    by (simp add: and_not_mask_split)
  then have "unat (?a + take_bit 3 y) = unat ?a + unat (take_bit 3 y)"
    by (simp add: unat_plus_simple)
  then have "unat y = unat ?a + unat (take_bit 3 y)"
    by (simp add: and_not_mask_split)
  moreover have "unat (take_bit 3 y) < 8"
    using take_bit_nat_less_exp [of 3 "unat y"] by (simp add: unsigned_take_bit_eq)
  ultimately show ?thesis
    by (simp add: m8)
qed

lemma sizeof_le_currSize:
  assumes "length T + 7 < 2 ^ 64"
  shows "length T \<le> unat (currSize T)"
proof -
  from assms have len: "unat (of_nat (length T) :: 64 word) = length T"
    by (simp add: unat_of_nat)
  with assms have "unat (of_nat (length T) :: 64 word) + unat (7 :: 64 word) < 2 ^ LENGTH(64)"
    by simp
  then have "unat (of_nat (length T) + 7 :: 64 word) = unat (of_nat (length T) :: 64 word) + unat (7 :: 64 word)"
    by (simp only: unat_add_lem)
  with len have "unat (sizeof T + 7) = length T + 7"
    by (simp add: sizeof_def)
  with round_down_ge [of "sizeof T + 7"] show ?thesis
    by (simp add: currSize_def)
qed

lemma scast_small:
  fixes i :: "32 word"
  assumes "unat i < 10000"
  shows "(scast i :: 64 word) = of_nat (unat i)"
proof -
  have ui: "uint i = int (unat i)"
    by simp
  have p: "(2 :: int) ^ 31 = 2147483648"
    by simp
  from ui assms have "uint i < 2147483648"
    by linarith
  with p have "uint i < 2 ^ 31"
    by (simp only:)
  moreover have "- 2147483648 \<le> uint i"
    using uint_ge_0 [of i] by linarith
  with p have "- (2 ^ 31) \<le> uint i"
    by (simp only:)
  ultimately have "signed_take_bit 31 (uint i) = uint i"
    by (rule signed_take_bit_int_eq_self [rotated])
  then have "sint i = uint i"
    by (simp add: sint_uint)
  then have "(scast i :: 64 word) = word_of_int (int (unat i))"
    by (simp only: scast_eq ui)
  then show ?thesis
    by simp
qed

lemma unat_ucast_32_64:
  fixes i :: "32 word"
  shows "unat (ucast i :: 64 word) = unat i"
proof -
  have "unat i < 2 ^ 32"
    using unsigned_less [of i] by simp
  then have "unat i < 2 ^ 64"
    by simp
  then have "take_bit 64 (unat i) = unat i"
    by (simp only: take_bit_nat_eq_self_iff)
  then show ?thesis
    by (simp add: unsigned_ucast_eq)
qed

lemma index_plus_currSize:
  fixes i :: "32 word" and c :: "64 word"
  assumes "unat i < 10000" "c < CHUNK"
  shows "unat (scast i + c) = unat i + unat c"
    and "unat (ucast (scast i + c) :: 32 word) = unat i + unat c"
    and "unat c < 10000"
proof -
  from assms(2) show c: "unat c < 10000"
    by (simp add: CHUNK_def word_less_nat_alt)
  from assms(1) have sc: "(scast i :: 64 word) = ucast i"
    by (simp add: scast_small)
  from assms(1) c have "unat (ucast i :: 64 word) + unat c < 2 ^ LENGTH(64)"
    by (simp add: unat_ucast_32_64)
  then have "unat (ucast i + c) = unat (ucast i :: 64 word) + unat c"
    by (simp only: unat_add_lem)
  then show s: "unat (scast i + c) = unat i + unat c"
    by (simp only: sc unat_ucast_32_64)
  from s assms(1) c have "unat (scast i + c) < 2 ^ 32"
    by simp
  then have "take_bit 32 (unat (scast i + c)) = unat (scast i + c)"
    by (simp only: take_bit_nat_eq_self_iff)
  with s show "unat (ucast (scast i + c) :: 32 word) = unat i + unat c"
    by (simp add: unsigned_ucast_eq)
qed

lemma length_store_bytes [simp]: "length (store_bytes c off bs) = length c"
  by (induction bs arbitrary: c off) simp_all

lemma nth_store_bytes:
  "j < length c \<Longrightarrow>
   store_bytes c off bs ! j = (if off \<le> j \<and> j < off + length bs then bs ! (j - off) else c ! j)"
proof (induction bs arbitrary: c off)
  case Nil
  then show ?case by auto
next
  case (Cons b bs)
  from Cons.prems have j: "j < length (c[off := b])"
    by simp
  show ?case
  proof (cases "j = off")
    case True
    with Cons.IH [OF j, of "Suc off"] Cons.prems show ?thesis
      by simp
  next
    case False
    with Cons.IH [OF j, of "Suc off"] Cons.prems show ?thesis
      by (auto simp: Suc_diff_le nth_Cons')
  qed
qed

lemma load_store_bytes_same:
  assumes "off + length bs \<le> length c"
  shows "take (length bs) (drop off (store_bytes c off bs)) = bs"
proof (rule nth_equalityI)
  from assms show "length (take (length bs) (drop off (store_bytes c off bs))) = length bs"
    by simp
next
  fix i assume "i < length (take (length bs) (drop off (store_bytes c off bs)))"
  with assms have i: "i < length bs" and "off + i < length c"
    by simp_all
  then show "take (length bs) (drop off (store_bytes c off bs)) ! i = bs ! i"
    by (simp add: nth_store_bytes)
qed

lemma load_store_bytes_below:
  assumes "off' + n \<le> off"
  shows "take n (drop off' (store_bytes c off bs)) = take n (drop off' c)"
proof (rule nth_equalityI)
  show "length (take n (drop off' (store_bytes c off bs))) = length (take n (drop off' c))"
    by simp
next
  fix i assume "i < length (take n (drop off' (store_bytes c off bs)))"
  then have i: "i < n" and l: "off' + i < length c"
    by auto
  with assms have "\<not> off \<le> off' + i"
    by simp
  with i l show "take n (drop off' (store_bytes c off bs)) ! i = take n (drop off' c) ! i"
    by (simp add: nth_store_bytes)
qed

lemma unat_CHUNK: "unat CHUNK = 10000"
  by (simp add: CHUNK_def)

lemma length_new_chunk: "length new_chunk = unat CHUNK"
  by (simp add: new_chunk_def)

lemma alloc_rejects: "alloc A T = Inl AssertionFailure \<longleftrightarrow> \<not> currSize T < CHUNK"
  by (simp add: alloc_def Let_def)

lemma alloc_accepts: "currSize T < CHUNK \<Longrightarrow> \<exists>p A'. alloc A T = Inr (p, A')"
  by (simp add: alloc_def Let_def)

lemma alloc_cases:
  assumes cons: "consistent A" and al: "alloc A T = Inr (p, A')"
  obtains
    (fresh) "p = (length (chunks A), 0)"
      "chunks A' = chunks A @ [store_bytes new_chunk 0 T]"
      "unat (index A') = unat (currSize T)" "unat (currSize T) < unat CHUNK"
      "chunks A = [] \<or> unat CHUNK \<le> unat (index A) + unat (currSize T)"
  | (bump) "chunks A \<noteq> []" "unat (index A) + unat (currSize T) < unat CHUNK"
      "p = (length (chunks A) - 1, unat (index A))"
      "chunks A' = (chunks A)[length (chunks A) - 1 :=
         store_bytes (chunks A ! (length (chunks A) - 1)) (unat (index A)) T]"
      "unat (index A') = unat (index A) + unat (currSize T)"
proof -
  from al have lt: "currSize T < CHUNK"
    by (cases "currSize T < CHUNK") (simp_all add: alloc_def)
  then have c: "unat (currSize T) < unat CHUNK"
    by (simp add: word_less_nat_alt)
  have zero: "unat (ucast (scast (0 :: 32 word) + currSize T) :: 32 word) = unat (currSize T)"
    using index_plus_currSize(2) [of 0 "currSize T"] lt by simp
  show thesis
  proof (cases "chunks A = []")
    case True
    with al lt have "p = (length (chunks A), 0)"
      "chunks A' = chunks A @ [store_bytes new_chunk 0 T]"
      "index A' = ucast (scast (0 :: 32 word) + currSize T)"
      by (auto simp: alloc_def Let_def)
    with zero c True show thesis
      by (intro fresh) simp_all
  next
    case False
    with cons have i: "unat (index A) < 10000"
      by (simp add: consistent_def unat_CHUNK)
    note sum = index_plus_currSize [OF i lt]
    show thesis
    proof (cases "CHUNK \<le> scast (index A) + currSize T")
      case True
      with al lt have "p = (length (chunks A), 0)"
        "chunks A' = chunks A @ [store_bytes new_chunk 0 T]"
        "index A' = ucast (scast (0 :: 32 word) + currSize T)"
        by (auto simp: alloc_def Let_def)
      moreover from True sum(1) have "unat CHUNK \<le> unat (index A) + unat (currSize T)"
        by (simp add: word_le_nat_alt)
      ultimately show thesis
        using zero c by (intro fresh) simp_all
    next
      case no: False
      with al lt False have "p = (length (chunks A) - 1, unat (index A))"
        "chunks A' = (chunks A)[length (chunks A) - 1 :=
           store_bytes (chunks A ! (length (chunks A) - 1)) (unat (index A)) T]"
        "index A' = ucast (scast (index A) + currSize T)"
        by (auto simp: alloc_def Let_def)
      moreover from no sum(1) have "unat (index A) + unat (currSize T) < unat CHUNK"
        by (simp add: word_le_nat_alt)
      ultimately show thesis
        using False sum(2) by (intro bump) simp_all
    qed
  qed
qed

lemma alloc_step:
  assumes cons: "consistent A" and len: "length T + 7 < 2 ^ 64"
    and al: "alloc A T = Inr (p, A')"
  shows "consistent A'"
    and "valid A' p (length T)"
    and "load_bytes A' p (length T) = T"
    and "length (chunks A) \<le> length (chunks A')"
    and "valid A q n \<Longrightarrow> valid A' q n \<and> load_bytes A' q n = load_bytes A q n"
proof -
  note fits = sizeof_le_currSize [OF len]
  from cons have all: "list_all (\<lambda>c. length c = unat CHUNK) (chunks A)"
    by (simp add: consistent_def)
  have "consistent A' \<and> valid A' p (length T) \<and> load_bytes A' p (length T) = T
      \<and> length (chunks A) \<le> length (chunks A')
      \<and> (valid A q n \<longrightarrow> valid A' q n \<and> load_bytes A' q n = load_bytes A q n)"
    using cons al
  proof (cases rule: alloc_cases)
    case fresh
    from fresh(2,3,4) all have "consistent A'"
      by (simp add: consistent_def length_new_chunk)
    moreover from fresh(1,2,3,4) fits have "valid A' p (length T)"
      by (simp add: valid_def)
    moreover have "load_bytes A' p (length T) = T"
    proof -
      from fresh(4) fits have "0 + length T \<le> length new_chunk"
        by (simp add: length_new_chunk)
      from load_store_bytes_same [OF this] fresh(1,2) show ?thesis
        by (simp add: load_bytes_def)
    qed
    moreover from fresh(2) have "length (chunks A) \<le> length (chunks A')"
      by simp
    moreover have "valid A' q n \<and> load_bytes A' q n = load_bytes A q n" if "valid A q n"
    proof -
      from that have "fst q < length (chunks A)" "snd q + n \<le> unat CHUNK"
        by (simp_all add: valid_def)
      with fresh(2) show ?thesis
        by (simp add: valid_def load_bytes_def nth_append)
    qed
    ultimately show ?thesis
      by blast
  next
    case bump
    let ?k = "length (chunks A) - 1"
    from bump(1) have k: "?k < length (chunks A)"
      by (cases "chunks A") simp_all
    with all have lk: "length (chunks A ! ?k) = unat CHUNK"
      by (simp add: list_all_length)
    have "list_all (\<lambda>c. length c = unat CHUNK) (chunks A')"
      unfolding list_all_length
    proof (intro allI impI)
      fix j assume "j < length (chunks A')"
      with bump(4) have j: "j < length (chunks A)"
        by simp
      with all have "length (chunks A ! j) = unat CHUNK"
        by (simp add: list_all_length)
      with bump(4) j lk show "length (chunks A' ! j) = unat CHUNK"
        by (cases "j = ?k") simp_all
    qed
    with bump(2,5) have "consistent A'"
      by (simp add: consistent_def)
    moreover from bump(2,3,4,5) fits k have "valid A' p (length T)"
      by (simp add: valid_def)
    moreover from bump(2,3,4) fits k lk have "load_bytes A' p (length T) = T"
      by (simp add: load_bytes_def load_store_bytes_same)
    moreover from bump(4) have "length (chunks A) \<le> length (chunks A')"
      by simp
    moreover have "valid A' q n \<and> load_bytes A' q n = load_bytes A q n" if "valid A q n"
    proof (cases "fst q = ?k")
      case True
      with that have "snd q + n \<le> unat (index A)" "snd q + n \<le> unat CHUNK"
        by (auto simp: valid_def)
      with bump(4,5) True k show ?thesis
        by (simp add: valid_def load_bytes_def load_store_bytes_below)
    next
      case False
      with that have "fst q < ?k" "snd q + n \<le> unat CHUNK"
        by (auto simp: valid_def)
      with bump(4) False show ?thesis
        by (simp add: valid_def load_bytes_def)
    qed
    ultimately show ?thesis
      by blast
  qed
  then show "consistent A'"
    and "valid A' p (length T)"
    and "load_bytes A' p (length T) = T"
    and "length (chunks A) \<le> length (chunks A')"
    and "valid A q n \<Longrightarrow> valid A' q n \<and> load_bytes A' q n = load_bytes A q n"
    by blast+
qed

lemma alloc_all_Cons:
  "alloc_all A (T # Ts) = Inr (ps, A') \<longleftrightarrow>
   (\<exists>p A1 ps'. alloc A T = Inr (p, A1) \<and> alloc_all A1 Ts = Inr (ps', A') \<and> ps = p # ps')"
  by (auto simp: and_then_eq_Inr)

lemma alloc_all_safe:
  "consistent A \<Longrightarrow> list_all (\<lambda>T. length T + 7 < 2 ^ 64) Ts \<Longrightarrow>
   alloc_all A Ts = Inr (ps, A') \<Longrightarrow>
   consistent A' \<and> length (chunks A) \<le> length (chunks A')
   \<and> list_all2 (\<lambda>p T. valid A' p (length T) \<and> load_bytes A' p (length T) = T) ps Ts
   \<and> (\<forall>q n. valid A q n \<longrightarrow> valid A' q n \<and> load_bytes A' q n = load_bytes A q n)"
proof (induction Ts arbitrary: A ps)
  case Nil
  then show ?case by simp
next
  case (Cons T Ts)
  from Cons.prems(3) alloc_all_Cons [of A T Ts ps A']
  obtain p A1 ps' where al: "alloc A T = Inr (p, A1)"
    and rest: "alloc_all A1 Ts = Inr (ps', A')" and ps: "ps = p # ps'"
    by blast
  from Cons.prems(2) have len: "length T + 7 < 2 ^ 64"
    and lens: "list_all (\<lambda>T. length T + 7 < 2 ^ 64) Ts"
    by simp_all
  note step = alloc_step [OF Cons.prems(1) len al]
  note ih = Cons.IH [OF step(1) lens rest]
  from ih step(2,3) have "valid A' p (length T) \<and> load_bytes A' p (length T) = T"
    by metis
  moreover have "valid A' q n \<and> load_bytes A' q n = load_bytes A q n" if "valid A q n" for q n
    using step(5) [OF that] ih by metis
  moreover from ih step(4) have "length (chunks A) \<le> length (chunks A')"
    by simp
  ultimately show ?case
    using ih ps by simp
qed

lemma alloc_all_succeeds:
  "list_all (\<lambda>T. currSize T < CHUNK) Ts \<Longrightarrow> \<exists>ps A'. alloc_all A Ts = Inr (ps, A')"
proof (induction Ts arbitrary: A)
  case Nil
  then show ?case by simp
next
  case (Cons T Ts)
  then obtain p A1 where "alloc A T = Inr (p, A1)"
    using alloc_accepts [of T A] by auto
  moreover from Cons obtain ps A' where "alloc_all A1 Ts = Inr (ps, A')"
    by fastforce
  ultimately show ?case
    by simp
qed

lemma alloc_all_same_chunk:
  "consistent A \<Longrightarrow> list_all (\<lambda>T. length T + 7 < 2 ^ 64) Ts \<Longrightarrow>
   alloc_all A Ts = Inr (ps, A') \<Longrightarrow> chunks A \<noteq> [] \<Longrightarrow>
   length (chunks A') = length (chunks A) \<Longrightarrow>
   unat (index A') = unat (index A) + sum_list (map (\<lambda>T. unat (currSize T)) Ts)"
proof (induction Ts arbitrary: A ps)
  case Nil
  then show ?case by simp
next
  case (Cons T Ts)
  from Cons.prems(3) alloc_all_Cons [of A T Ts ps A']
  obtain p A1 ps' where al: "alloc A T = Inr (p, A1)"
    and rest: "alloc_all A1 Ts = Inr (ps', A')" and ps: "ps = p # ps'"
    by blast
  from Cons.prems(2) have len: "length T + 7 < 2 ^ 64"
    and lens: "list_all (\<lambda>T. length T + 7 < 2 ^ 64) Ts"
    by simp_all
  note step = alloc_step [OF Cons.prems(1) len al]
  from alloc_all_safe [OF step(1) lens rest] have "length (chunks A1) \<le> length (chunks A')"
    by simp
  with step(4) Cons.prems(5) have same: "length (chunks A1) = length (chunks A)"
    and same': "length (chunks A') = length (chunks A1)"
    by simp_all
  with Cons.prems(4) have ne: "chunks A1 \<noteq> []"
    by auto
  from Cons.prems(1) al have "unat (index A1) = unat (index A) + unat (currSize T)"
  proof (cases rule: alloc_cases)
    case fresh
    with same show ?thesis by simp
  next
    case bump
    then show ?thesis by simp
  qed
  with Cons.IH [OF step(1) lens rest ne same'] show ?case
    by simp
qed

lemma alloc_all_spans:
  assumes "chunks A = []" and lens: "list_all (\<lambda>T. length T + 7 < 2 ^ 64) Ts"
    and al: "alloc_all A Ts = Inr (ps, A')"
    and big: "unat CHUNK \<le> sum_list (map (\<lambda>T. unat (currSize T)) Ts)"
  shows "2 \<le> length (chunks A')"
proof (cases Ts)
  case Nil
  with big show ?thesis
    by (simp add: unat_CHUNK)
next
  case (Cons T Ts')
  from assms(1) have cons: "consistent A"
    by (simp add: consistent_def)
  from al Cons alloc_all_Cons [of A T Ts' ps A']
  obtain p A1 ps' where a1: "alloc A T = Inr (p, A1)"
    and rest: "alloc_all A1 Ts' = Inr (ps', A')"
    by blast
  from lens Cons have len: "length T + 7 < 2 ^ 64"
    and lens': "list_all (\<lambda>T. length T + 7 < 2 ^ 64) Ts'"
    by simp_all
  note step = alloc_step [OF cons len a1]
  from cons a1 have one: "length (chunks A1) = 1" and i1: "unat (index A1) = unat (currSize T)"
    using assms(1) by (cases rule: alloc_cases; simp)+
  note safe = alloc_all_safe [OF step(1) lens' rest]
  show ?thesis
  proof (rule ccontr)
    assume "\<not> 2 \<le> length (chunks A')"
    with safe one have same: "length (chunks A') = length (chunks A1)"
      by simp
    from one have "chunks A1 \<noteq> []"
      by auto
    from alloc_all_same_chunk [OF step(1) lens' rest this same] i1 Cons
    have "unat (index A') = sum_list (map (\<lambda>T. unat (currSize T)) Ts)"
      by simp
    moreover from safe same one have "unat (index A') < unat CHUNK"
      by (auto simp: consistent_def)
    ultimately show False
      using big by simp
  qed
qed

text \<open>
  C7. \<^verbatim>\<open>alloc\<close> fails its assertion for every type whose aligned size is not below
  \<^verbatim>\<open>CHUNK\<close>. An allocation in a consistent arena leaves every valid pointer valid and
  the bytes behind it as they were, and returns a valid pointer to the new object. A run
  of allocations that starts with no chunk, each of an aligned size below \<^verbatim>\<open>CHUNK\<close>,
  succeeds; at its end every pointer it returned is valid and the object behind it is the
  one constructed there; when the aligned sizes add up to \<^verbatim>\<open>CHUNK\<close> or more, the arena
  holds two chunks or more. (\<open>length T + 7 < 2 ^ 64\<close>: the size of the type is a
  \<^verbatim>\<open>size_t\<close> and rounding it up does not wrap.)
\<close>

theorem Arena_alloc_safe:
  "(\<not> currSize T < CHUNK \<longrightarrow> alloc A T = Inl AssertionFailure)
   \<and> (consistent A \<and> length T + 7 < 2 ^ 64 \<and> alloc A T = Inr (p, A1) \<and> valid A q n \<longrightarrow>
        consistent A1 \<and> valid A1 q n \<and> load_bytes A1 q n = load_bytes A q n
        \<and> valid A1 p (length T) \<and> load_bytes A1 p (length T) = T)
   \<and> (chunks A = [] \<and> list_all (\<lambda>T. length T + 7 < 2 ^ 64 \<and> currSize T < CHUNK) Ts \<longrightarrow>
        (\<exists>ps A'. alloc_all A Ts = Inr (ps, A')
           \<and> list_all2 (\<lambda>p T. valid A' p (length T) \<and> load_bytes A' p (length T) = T) ps Ts
           \<and> (unat CHUNK \<le> sum_list (map (\<lambda>T. unat (currSize T)) Ts) \<longrightarrow>
                2 \<le> length (chunks A'))))"
proof -
  have rejects: "\<not> currSize T < CHUNK \<longrightarrow> alloc A T = Inl AssertionFailure"
    by (simp add: alloc_rejects)
  have frame: "consistent A \<and> length T + 7 < 2 ^ 64 \<and> alloc A T = Inr (p, A1) \<and> valid A q n \<longrightarrow>
      consistent A1 \<and> valid A1 q n \<and> load_bytes A1 q n = load_bytes A q n
      \<and> valid A1 p (length T) \<and> load_bytes A1 p (length T) = T"
  proof
    assume "consistent A \<and> length T + 7 < 2 ^ 64 \<and> alloc A T = Inr (p, A1) \<and> valid A q n"
    then have cons: "consistent A" and len: "length T + 7 < 2 ^ 64"
      and al: "alloc A T = Inr (p, A1)" and q: "valid A q n"
      by simp_all
    from alloc_step [OF cons len al] q
    show "consistent A1 \<and> valid A1 q n \<and> load_bytes A1 q n = load_bytes A q n
        \<and> valid A1 p (length T) \<and> load_bytes A1 p (length T) = T"
      by blast
  qed
  have run: "chunks A = [] \<and> list_all (\<lambda>T. length T + 7 < 2 ^ 64 \<and> currSize T < CHUNK) Ts \<longrightarrow>
      (\<exists>ps A'. alloc_all A Ts = Inr (ps, A')
         \<and> list_all2 (\<lambda>p T. valid A' p (length T) \<and> load_bytes A' p (length T) = T) ps Ts
         \<and> (unat CHUNK \<le> sum_list (map (\<lambda>T. unat (currSize T)) Ts) \<longrightarrow>
              2 \<le> length (chunks A')))"
  proof
    assume "chunks A = [] \<and> list_all (\<lambda>T. length T + 7 < 2 ^ 64 \<and> currSize T < CHUNK) Ts"
    then have empty: "chunks A = []" and lens: "list_all (\<lambda>T. length T + 7 < 2 ^ 64) Ts"
      and sizes: "list_all (\<lambda>T. currSize T < CHUNK) Ts"
      by (simp_all add: list_all_iff)
    from empty have cons: "consistent A"
      by (simp add: consistent_def)
    from alloc_all_succeeds [OF sizes] obtain ps A' where al: "alloc_all A Ts = Inr (ps, A')"
      by blast
    from alloc_all_safe [OF cons lens al]
    have "list_all2 (\<lambda>p T. valid A' p (length T) \<and> load_bytes A' p (length T) = T) ps Ts"
      by blast
    moreover have "2 \<le> length (chunks A')"
      if "unat CHUNK \<le> sum_list (map (\<lambda>T. unat (currSize T)) Ts)"
      using alloc_all_spans [OF empty lens al that] .
    ultimately show "\<exists>ps A'. alloc_all A Ts = Inr (ps, A')
        \<and> list_all2 (\<lambda>p T. valid A' p (length T) \<and> load_bytes A' p (length T) = T) ps Ts
        \<and> (unat CHUNK \<le> sum_list (map (\<lambda>T. unat (currSize T)) Ts) \<longrightarrow> 2 \<le> length (chunks A'))"
      using al by blast
  qed
  from rejects frame run show ?thesis
    by (intro conjI)
qed

lemma currSize_eval:
  "currSize (replicate 10000 1) = 10000" "currSize (replicate 5000 1) = 5000"
  "currSize [1, 2, 3] = 8" "currSize [4] = 8"
  by (simp_all add: currSize_def sizeof_def)

theorem Arena_alloc_safe_witness:
  "alloc \<lparr>chunks = [], index = 0\<rparr> (replicate 10000 1) = Inl AssertionFailure
   \<and> valid \<lparr>chunks = [store_bytes (store_bytes new_chunk 0 [1, 2, 3]) 8 [4]], index = 16\<rparr> (0, 0) 3
   \<and> load_bytes \<lparr>chunks = [store_bytes (store_bytes new_chunk 0 [1, 2, 3]) 8 [4]], index = 16\<rparr>
         (0, 0) 3
       = load_bytes \<lparr>chunks = [store_bytes new_chunk 0 [1, 2, 3]], index = 8\<rparr> (0, 0) 3
   \<and> load_bytes \<lparr>chunks = [store_bytes (store_bytes new_chunk 0 [1, 2, 3]) 8 [4]], index = 16\<rparr>
         (0, 8) (length [4 :: 8 word]) = [4]
   \<and> (\<exists>ps A'. alloc_all \<lparr>chunks = [], index = 0\<rparr> [replicate 5000 1, replicate 5000 1]
           = Inr (ps, A')
         \<and> list_all2 (\<lambda>p T. valid A' p (length T) \<and> load_bytes A' p (length T) = T) ps
             [replicate 5000 1, replicate 5000 1]
         \<and> 2 \<le> length (chunks A'))"
proof -
  let ?E = "\<lparr>chunks = [], index = 0\<rparr>"
  let ?B = "\<lparr>chunks = [store_bytes new_chunk 0 [1, 2, 3]], index = 8\<rparr>"
  let ?C = "\<lparr>chunks = [store_bytes (store_bytes new_chunk 0 [1, 2, 3]) 8 [4]], index = 16\<rparr>"
  let ?Ts = "[replicate 5000 1, replicate 5000 1] :: object list"
  have "\<not> currSize (replicate 10000 1) < CHUNK"
    by (simp add: currSize_eval CHUNK_def)
  with Arena_alloc_safe [of "replicate 10000 1" ?E]
  have a: "alloc ?E (replicate 10000 1) = Inl AssertionFailure"
    by blast
  have cons: "consistent ?B"
    by (simp add: consistent_def length_new_chunk unat_CHUNK)
  have len: "length [4 :: 8 word] + 7 < 2 ^ 64"
    by simp
  have al: "alloc ?B [4] = Inr ((0, 8), ?C)"
    by (simp add: alloc_def Let_def currSize_eval CHUNK_def)
  have q: "valid ?B (0, 0) 3"
    by (simp add: valid_def unat_CHUNK)
  from Arena_alloc_safe [of "[4]" ?B "(0, 8)" ?C "(0, 0)" 3] cons len al q
  have b: "valid ?C (0, 0) 3 \<and> load_bytes ?C (0, 0) 3 = load_bytes ?B (0, 0) 3
      \<and> load_bytes ?C (0, 8) (length [4 :: 8 word]) = [4]"
    by blast
  have "chunks ?E = []
      \<and> list_all (\<lambda>T. length T + 7 < 2 ^ 64 \<and> currSize T < CHUNK) ?Ts"
    by (simp add: currSize_eval CHUNK_def)
  moreover have "unat CHUNK \<le> sum_list (map (\<lambda>T. unat (currSize T)) ?Ts)"
    by (simp add: currSize_eval CHUNK_def)
  ultimately have c: "\<exists>ps A'. alloc_all ?E ?Ts = Inr (ps, A')
      \<and> list_all2 (\<lambda>p T. valid A' p (length T) \<and> load_bytes A' p (length T) = T) ps ?Ts
      \<and> 2 \<le> length (chunks A')"
    using Arena_alloc_safe [of "[]" ?E "(0, 0)" ?E "(0, 0)" 0 ?Ts] by blast
  from a b c show ?thesis
    by (intro conjI) blast+
qed

subsection \<open>Reading the layout of a text\<close>

lemma scan_append:
  "scan k st (s @ t) = (case scan k st s of None \<Rightarrow> None | Some st' \<Rightarrow> scan k st' t)"
  by (induction s arbitrary: st) (simp_all split: option.splits)

lemma scan_spaces:
  "scan k (LineStart n d) (replicate m CHR '' '') = Some (LineStart (n + m) d)"
  by (induction m arbitrary: n) simp_all

lemma scan_clean: "clean s \<Longrightarrow> scan k (Mid d) s = Some (Mid d)"
  by (induction s) (auto simp: clean_def)

lemma scan_close:
  "scan k (LineStart 0 (Suc 0)) (replicate (2 * k) CHR '' '' @ '')'') = Some (Mid 0)"
  by (simp add: scan_append scan_spaces)

lemma scan_depth:
  "scan k st s = Some st' \<Longrightarrow>
   depth_after (case st of LineStart n d \<Rightarrow> d | Mid d \<Rightarrow> d) s
     = Some (case st' of LineStart n d \<Rightarrow> d | Mid d \<Rightarrow> d)"
proof (induction s arbitrary: st)
  case Nil
  then show ?case by simp
next
  case (Cons c s)
  from Cons.prems obtain st1 where st1: "step k st c = Some st1"
    and rest: "scan k st1 s = Some st'"
    by (auto split: option.splits)
  from Cons.IH [OF rest] st1 show ?case
    by (cases st) (auto split: if_splits)
qed

lemma laid_out_balanced: "laid_out k s \<Longrightarrow> balanced s"
  using scan_depth [of k "LineStart (2 * k) 0" s "Mid 0"] by (simp add: laid_out_def balanced_def)

lemma clean_append [simp]: "clean (s @ t) \<longleftrightarrow> clean s \<and> clean t"
  by (auto simp: clean_def)

lemma clean_digit: "n < 10 \<Longrightarrow> clean [digit n]"
proof -
  assume "n < 10"
  then have "n \<in> {0,1,2,3,4,5,6,7,8,9}" by auto
  then show ?thesis by (auto simp: digit_def clean_def)
qed

lemma clean_decimal: "clean (decimal n)"
proof (induction n rule: decimal.induct)
  case (1 n)
  then show ?case
    by (cases "n < 10") (simp_all add: decimal.simps [of n] clean_digit)
qed

lemma clean_signed_decimal: "clean (signed_decimal i)"
  using clean_decimal [of "nat (- i)"] clean_decimal [of "nat i"]
  by (simp add: signed_decimal_def clean_def)

subsection \<open>The printers depend on the stream only by appending to it\<close>

lemma framedI: "(\<And>o'. f o' = (case m of Inl e \<Rightarrow> Inl e | Inr s \<Rightarrow> Inr (o' @ s))) \<Longrightarrow> framed f"
  unfolding framed_def by blast

lemma framed_Inr_iff:
  assumes "framed f"
  shows "f o' = Inr r \<longleftrightarrow> (\<exists>s. f [] = Inr s \<and> r = o' @ s)"
proof -
  from assms obtain m where m: "\<And>o'. f o' = (case m of Inl e \<Rightarrow> Inl e | Inr s \<Rightarrow> Inr (o' @ s))"
    unfolding framed_def by blast
  show ?thesis
    by (cases m) (auto simp: m [of o'] m [of "[]"])
qed

lemma framed_and_then:
  assumes "framed F" and "framed G"
  shows "framed (\<lambda>o'. and_then (F o') G)"
proof -
  from assms(1) obtain m where m: "\<And>o'. F o' = (case m of Inl e \<Rightarrow> Inl e | Inr s \<Rightarrow> Inr (o' @ s))"
    unfolding framed_def by blast
  from assms(2) obtain g where g: "\<And>o'. G o' = (case g of Inl e \<Rightarrow> Inl e | Inr s \<Rightarrow> Inr (o' @ s))"
    unfolding framed_def by blast
  show ?thesis
  proof (cases m)
    case (Inl e)
    then show ?thesis
      by (intro framedI [where m = "Inl e"]) (simp add: m)
  next
    case (Inr s)
    show ?thesis
    proof (cases g)
      case (Inl e)
      with Inr show ?thesis
        by (intro framedI [where m = "Inl e"]) (simp add: m g)
    next
      case t: (Inr t)
      with Inr show ?thesis
        by (intro framedI [where m = "Inr (s @ t)"]) (simp add: m g)
    qed
  qed
qed

lemma framed_const_bind:
  "(\<And>t. m = Inr t \<Longrightarrow> framed (\<lambda>o'. F o' t)) \<Longrightarrow> framed (\<lambda>o'. and_then m (\<lambda>t. F o' t))"
  by (cases m) (simp_all add: framed_def, metis sum.case(1))

lemma framed_if:
  "(c \<Longrightarrow> framed F) \<Longrightarrow> (\<not> c \<Longrightarrow> framed G) \<Longrightarrow> framed (\<lambda>o'. if c then F o' else G o')"
  by (cases c) simp_all

lemma framed_skip: "framed Inr"
  by (intro framedI [where m = "Inr []"]) simp

lemma framed_Inr: "framed (\<lambda>o'. Inr (o' @ t))"
  by (intro framedI [where m = "Inr t"]) simp

lemma framed_Inl: "framed (\<lambda>o'. Inl e)"
  by (intro framedI [where m = "Inl e"]) simp

lemma framed_shift:
  assumes "framed F"
  shows "framed (\<lambda>o'. F (o' @ t))"
proof -
  from assms obtain m where m: "\<And>o'. F o' = (case m of Inl e \<Rightarrow> Inl e | Inr s \<Rightarrow> Inr (o' @ s))"
    unfolding framed_def by blast
  show ?thesis
  proof (cases m)
    case (Inl e)
    then show ?thesis
      by (intro framedI [where m = "Inl e"]) (simp add: m)
  next
    case (Inr s)
    then show ?thesis
      by (intro framedI [where m = "Inr (t @ s)"]) (simp add: m)
  qed
qed

lemma framed_Var: "framed (\<lambda>o'. Var_print o' v)"
proof (cases "num v < MAX_NUM")
  case True
  then show ?thesis
    by (intro framedI [where m = "Inr (decimal (unat (num v)))"]) (simp add: put_unsigned_def)
next
  case False
  then show ?thesis
  proof (cases v)
    case (Var_of_num n)
    with False show ?thesis
      by (intro framedI [where m = "Inl InactiveMember"]) simp
  next
    case (Var_of_str s)
    with False show ?thesis
      by (intro framedI [where m = "Inr (str s)"]) simp
  qed
qed

lemma framed_Literal: "framed (\<lambda>o'. Literal_print fm o' l)"
proof (cases l)
  case Literal_default
  then show ?thesis
    by (intro framedI [where m = "Inl Abort"]) simp
next
  case (Literal_i32 v)
  then show ?thesis
    by (intro framedI [where m = "Inr (signed_decimal (sint v))"]) simp
next
  case (Literal_i64 v)
  then show ?thesis
    by (intro framedI [where m = "Inr (signed_decimal (sint v))"]) simp
next
  case (Literal_f32 v)
  then show ?thesis
    by (intro framedI [where m = "Inr (show_float fm v)"]) simp
next
  case (Literal_f64 v)
  then show ?thesis
    by (intro framedI [where m = "Inr (show_double fm v)"]) simp
qed

lemmas print_unfold = incIndent_def decIndent_def doIndent_eq put_unsigned_def put_int_def
  put_bool_def

lemmas framed_intros = framed_const_bind framed_and_then framed_if framed_skip framed_shift
  framed_Inr framed_Inl framed_Var framed_Literal

subsection \<open>Declarations and the module\<close>

lemma printBasicType_app: "printBasicType (a @ b) t = a @ printBasicType b t"
  by (cases t) simp_all

lemma FunctionType_printParams_app:
  "FunctionType_printParams (a @ b) ps = a @ FunctionType_printParams b ps"
  by (induction ps arbitrary: b) (simp_all add: printBasicType_app)

lemma printParams_app: "printParams (a @ b) ps = a @ printParams b ps"
  by (induction ps arbitrary: b) (simp_all add: printBasicType_app)

lemma Function_printLocals_app:
  "Function_printLocals (a @ b) i ls = a @ Function_printLocals b i ls"
  by (induction ls arbitrary: b) (simp_all add: printBasicType_app doIndent_eq)

lemmas declaration_app = printBasicType_app FunctionType_printParams_app printParams_app
  Function_printLocals_app

lemma FunctionType_print_app: "FunctionType_print o' i t = o' @ FunctionType_print [] i t"
  by (simp add: FunctionType_print_def print_unfold declaration_app)

lemma Import_print_app: "Import_print o' i x = o' @ Import_print [] i x"
  using FunctionType_print_app [of "o' @ _"] FunctionType_print_app [of "_ # _"]
  by (simp add: Import_print_def)

lemma Export_print_framed: "framed (\<lambda>o'. Export_print o' i e)"
  unfolding Export_print_def by (rule framed_intros)+

lemma Table_printVars_framed: "framed (\<lambda>o'. Table_printVars o' vs)"
proof (induction vs)
  case Nil
  show ?case by (simp add: framed_skip)
next
  case (Cons v vs)
  show ?case
    by (simp del: Var_print.simps) (rule framed_intros Cons)+
qed

lemma Table_print_framed: "framed (\<lambda>o'. Table_print o' i t)"
  unfolding Table_print_def by (rule framed_intros Table_printVars_framed)+

lemma Module_printFunctionTypes_text:
  "Module_printFunctionTypes o' i ts
   = o' @ concat (map (\<lambda>t. doIndent [] i @ FunctionType_print [] i t @ [NL]) ts)"
proof (induction ts arbitrary: o')
  case Nil
  show ?case by simp
next
  case (Cons t ts)
  from Cons [of "FunctionType_print (doIndent o' i) i t @ [NL]"]
    FunctionType_print_app [of "doIndent o' i" i t]
  show ?case
    by (simp add: doIndent_eq)
qed

lemma Module_printImports_text:
  "Module_printImports o' i xs
   = o' @ concat (map (\<lambda>x. doIndent [] i @ Import_print [] i (snd x) @ [NL]) xs)"
proof (induction xs arbitrary: o')
  case Nil
  show ?case by simp
next
  case (Cons x xs)
  from Cons [of "Import_print (doIndent o' i) i (snd x) @ [NL]"]
    Import_print_app [of "doIndent o' i" i "snd x"]
  show ?case
    by (simp add: doIndent_eq)
qed

lemma lines_loop:
  fixes pr :: "ostream \<Rightarrow> 'a \<Rightarrow> failure + ostream"
  assumes fr: "\<And>x. framed (\<lambda>o'. pr o' x)"
    and nil: "\<And>o'. loop o' [] = Inr o'"
    and cons: "\<And>o' x xs. loop o' (x # xs) = and_then (pr (o' @ ind) x) (\<lambda>o1. loop (o1 @ [NL]) xs)"
  shows "loop o' xs = Inr r \<longleftrightarrow>
    (\<exists>ss. list_all2 (\<lambda>x s. pr [] x = Inr s) xs ss
       \<and> r = o' @ concat (map (\<lambda>s. ind @ s @ [NL]) ss))"
proof (induction xs arbitrary: o')
  case Nil
  show ?case
    by (auto simp: nil)
next
  case (Cons x xs)
  note split = framed_Inr_iff [OF fr [of x]]
  show ?case
  proof
    assume "loop o' (x # xs) = Inr r"
    then obtain o1 where o1: "pr (o' @ ind) x = Inr o1" and rest: "loop (o1 @ [NL]) xs = Inr r"
      by (auto simp: cons and_then_eq_Inr)
    from o1 split [of "o' @ ind" o1] obtain s where s: "pr [] x = Inr s" "o1 = (o' @ ind) @ s"
      by blast
    from rest Cons [of "o1 @ [NL]"] obtain ss
      where ss: "list_all2 (\<lambda>x s. pr [] x = Inr s) xs ss"
        "r = (o1 @ [NL]) @ concat (map (\<lambda>s. ind @ s @ [NL]) ss)"
      by blast
    from s ss have "list_all2 (\<lambda>x s. pr [] x = Inr s) (x # xs) (s # ss)
        \<and> r = o' @ concat (map (\<lambda>s. ind @ s @ [NL]) (s # ss))"
      by simp
    then show "\<exists>ss. list_all2 (\<lambda>x s. pr [] x = Inr s) (x # xs) ss
        \<and> r = o' @ concat (map (\<lambda>s. ind @ s @ [NL]) ss)"
      by blast
  next
    assume "\<exists>ss. list_all2 (\<lambda>x s. pr [] x = Inr s) (x # xs) ss
        \<and> r = o' @ concat (map (\<lambda>s. ind @ s @ [NL]) ss)"
    then obtain s ss where s: "pr [] x = Inr s"
      and ss: "list_all2 (\<lambda>x s. pr [] x = Inr s) xs ss"
      and r: "r = o' @ concat (map (\<lambda>s. ind @ s @ [NL]) (s # ss))"
      by (auto simp: list_all2_Cons1)
    from s split [of "o' @ ind" "(o' @ ind) @ s"] have "pr (o' @ ind) x = Inr ((o' @ ind) @ s)"
      by blast
    moreover from ss r Cons [of "((o' @ ind) @ s) @ [NL]"]
    have "loop (((o' @ ind) @ s) @ [NL]) xs = Inr r"
      by auto
    ultimately show "loop o' (x # xs) = Inr r"
      by (simp add: cons)
  qed
qed

lemma Module_printExports_text:
  "Module_printExports o' i es = Inr r \<longleftrightarrow>
   (\<exists>ss. list_all2 (\<lambda>e s. Export_print [] i e = Inr s) es ss
      \<and> r = o' @ concat (map (\<lambda>s. doIndent [] i @ s @ [NL]) ss))"
  by (rule lines_loop [where pr = "\<lambda>o' e. Export_print o' i e"])
    (simp_all add: Export_print_framed doIndent_eq)

text \<open>The writers of the declarations do not end in a missing \<^verbatim>\<open>return\<close>.\<close>

lemma and_then_eq_Inl:
  "and_then m f = Inl e \<longleftrightarrow> m = Inl e \<or> (\<exists>x. m = Inr x \<and> f x = Inl e)"
  by (cases m) simp_all

lemma Var_print_returns: "Var_print o' v \<noteq> Inl (MissingReturn r)"
  by (cases v) simp_all

lemma Export_print_returns: "Export_print o' i e \<noteq> Inl (MissingReturn r)"
  by (simp add: Export_print_def and_then_eq_Inl Var_print_returns del: Var_print.simps)

lemma Module_printExports_returns: "Module_printExports o' i es \<noteq> Inl (MissingReturn r)"
  by (induction es arbitrary: o') (simp_all add: and_then_eq_Inl Export_print_returns)

lemma Table_printVars_returns: "Table_printVars o' vs \<noteq> Inl (MissingReturn r)"
  by (induction vs arbitrary: o')
    (simp_all add: and_then_eq_Inl Var_print_returns del: Var_print.simps)

lemma Table_print_returns: "Table_print o' i t \<noteq> Inl (MissingReturn r)"
  by (simp add: Table_print_def and_then_eq_Inl Table_printVars_returns)

text \<open>
  \<^verbatim>\<open>Function::print\<close> gets as far as the end of \<^verbatim>\<open>printParamsAndResult\<close>, and the loop
  over the functions as far as the first function.
\<close>

lemma Function_print_MissingReturn:
  "Function_print fm o' i f
   = Inl (MissingReturn (o' @ ''(func '' @ str (Function.name f) @ '' ''
       @ printParams [] (Function.params f)
       @ ''(result '' @ printBasicType [] (Function.result f) @ '')''))"
proof -
  define h where "h = o' @ ''(func '' @ str (Function.name f) @ '' ''"
  have a: "printParams h (Function.params f) = h @ printParams [] (Function.params f)"
    using printParams_app [of h "[]"] by simp
  have b: "printBasicType ''(result '' t = ''(result '' @ printBasicType [] t" for t
    by (cases t) simp_all
  have "Function_print fm o' i f
      = Inl (MissingReturn
          (printBasicType (printParams h (Function.params f) @ ''(result '') (Function.result f)
             @ '')''))"
    by (simp add: Function_print_def printParamsAndResult_def h_def)
  also have "\<dots> = Inl (MissingReturn (h @ printParams [] (Function.params f)
      @ ''(result '' @ printBasicType [] (Function.result f) @ '')''))"
    by (simp only: a b append_assoc printBasicType_app)
  finally show ?thesis
    by (simp add: h_def)
qed

lemma Module_printFunctions_cases:
  "Module_printFunctions fm o' i fs =
    (case fs of
       [] \<Rightarrow> Inr o'
     | None # rest \<Rightarrow> Inl NullDereference
     | Some g # rest \<Rightarrow>
         Inl (MissingReturn (doIndent o' i @ ''(func '' @ str (Function.name g) @ '' ''
           @ printParams [] (Function.params g)
           @ ''(result '' @ printBasicType [] (Function.result g) @ '')'')))"
proof (cases fs)
  case Nil
  then show ?thesis by simp
next
  case (Cons f rest)
  then show ?thesis
    by (cases f) (simp_all add: Function_print_MissingReturn)
qed

lemma map_fst_map_filter_lookup:
  "list_all (\<lambda>k. Mapping.lookup m k \<noteq> None) ks \<Longrightarrow>
   map fst (List.map_filter (\<lambda>k. map_option (Pair k) (Mapping.lookup m k)) ks) = ks"
  by (induction ks) (auto simp: List.map_filter_simps)

lemma std_map_entries_keys: "map fst (std_map_entries m) = Mapping.ordered_keys m"
proof -
  have "list_all (\<lambda>k. Mapping.lookup m k \<noteq> None) (Mapping.ordered_keys m)"
  proof (cases "finite (Mapping.keys m)")
    case True
    then show ?thesis
      by (auto simp: list_all_iff dest: in_keysD)
  next
    case False
    then show ?thesis
      by (simp add: ordered_keys_def)
  qed
  then show ?thesis
    unfolding std_map_entries_def by (rule map_fst_map_filter_lookup)
qed

lemma std_map_entries_lookup:
  "(k, v) \<in> set (std_map_entries m) \<Longrightarrow> Mapping.lookup m k = Some v"
  by (auto simp: std_map_entries_def List.map_filter_def)

lemma std_map_entries_map_of:
  assumes "finite (Mapping.keys m)"
  shows "map_of (std_map_entries m) = Mapping.lookup m"
proof
  fix k
  show "map_of (std_map_entries m) k = Mapping.lookup m k"
  proof (cases "Mapping.lookup m k")
    case None
    have "map_of (std_map_entries m) k = None"
    proof (rule ccontr)
      assume "map_of (std_map_entries m) k \<noteq> None"
      then obtain v where "map_of (std_map_entries m) k = Some v"
        by auto
      then have "(k, v) \<in> set (std_map_entries m)"
        by (rule map_of_SomeD)
      with None show False
        by (simp add: std_map_entries_lookup)
    qed
    with None show ?thesis
      by simp
  next
    case (Some v)
    then have "k \<in> Mapping.keys m"
      by (auto simp: keys_dom_lookup)
    with assms have "k \<in> set (Mapping.ordered_keys m)"
      by simp
    with Some have "(k, v) \<in> set (std_map_entries m)"
      by (force simp: std_map_entries_def List.map_filter_def image_iff)
    moreover have "distinct (map fst (std_map_entries m))"
      by (simp add: std_map_entries_keys)
    ultimately have "map_of (std_map_entries m) k = Some v"
      by simp
    with Some show ?thesis
      by simp
  qed
qed

lemma str_mono: "a \<le> b \<Longrightarrow> str a \<le> str b"
  for a b :: Name
  by (auto simp: less_eq_Name_def)

lemma std_map_entries_sorted: "sorted (map (str \<circ> fst) (std_map_entries m))"
proof -
  have "sorted (map fst (std_map_entries m))"
    by (simp add: std_map_entries_keys)
  then have "sorted (map str (map fst (std_map_entries m)))"
    by (auto simp: sorted_map intro: sorted_wrt_mono_rel [rotated] str_mono)
  then show ?thesis
    by simp
qed

lemma doIndent_1: "doIndent [] 1 = ''  ''"
  by (simp add: doIndent_concat)

lemma Table_print_Inr:
  "Table_print o' i t = Inr r \<longleftrightarrow> (\<exists>s. Table_print [] i t = Inr s \<and> r = o' @ s)"
  by (rule framed_Inr_iff [OF Table_print_framed])

lemma Module_print_unfold:
  "Module_print fm o' m =
     and_then
       (Module_printExports
          (Module_printImports
             (Module_printFunctionTypes (o' @ ''(module'' @ [NL]) 1 (functionTypes m)) 1
             (std_map_entries (imports' m))) 1 (exports m)) (\<lambda>o2.
     and_then (Table_print (doIndent o2 1) 1 (table m)) (\<lambda>o3.
     and_then (Module_printFunctions fm (o3 @ [NL]) 1 (functions' m)) (\<lambda>o4.
     Inl (MissingReturn (o4 @ '')'' @ [NL])))))"
  by (simp add: Module_print_def incIndent_def decIndent_def doIndent_concat)

lemma Module_print_never_returns: "Module_print fm o' m \<noteq> Inr r"
  by (simp add: Module_print_unfold and_then_eq_Inr)

lemma Module_print_MissingReturn_iff:
  "Module_print fm o' m = Inl (MissingReturn r) \<longleftrightarrow>
   (\<exists>o2 o3.
      Module_printExports
        (Module_printImports
           (Module_printFunctionTypes (o' @ ''(module'' @ [NL]) 1 (functionTypes m)) 1
           (std_map_entries (imports' m))) 1 (exports m) = Inr o2
    \<and> Table_print (doIndent o2 1) 1 (table m) = Inr o3
    \<and> (functions' m = [] \<and> r = o3 @ [NL] @ '')'' @ [NL]
       \<or> (\<exists>g fs. functions' m = Some g # fs
            \<and> r = o3 @ [NL] @ ''  (func '' @ str (Function.name g) @ '' ''
                @ printParams [] (Function.params g)
                @ ''(result '' @ printBasicType [] (Function.result g) @ '')'')))"
proof (cases "functions' m")
  case Nil
  then show ?thesis
    by (auto simp: Module_print_unfold and_then_eq_Inl Module_printExports_returns
        Table_print_returns Module_printFunctions_cases doIndent_concat)
next
  case (Cons f fs)
  show ?thesis
  proof (cases f)
    case None
    with Cons show ?thesis
      by (auto simp: Module_print_unfold and_then_eq_Inl Module_printExports_returns
          Table_print_returns Module_printFunctions_cases doIndent_concat)
  next
    case (Some g)
    with Cons show ?thesis
      by (auto simp: Module_print_unfold and_then_eq_Inl Module_printExports_returns
          Table_print_returns Module_printFunctions_cases doIndent_concat)
  qed
qed

text \<open>
  C2. \<^verbatim>\<open>Module::print\<close> writes \<^verbatim>\<open>(module\<close>, a line for every function type in the
  order of the vector, a line for every import in the order of the map, a line for every
  export in the order of the vector and the line of the table, each line the text of the
  declaration, indented once. The map is visited in the order of the names of its keys,
  each key once, and (a \<^verbatim>\<open>std::map\<close> is finite) every import is visited. But the call
  never returns. With no function in the module, control reaches the closing brace of
  \<^verbatim>\<open>Module::print\<close> after the closing parenthesis was written, and there is no
  \<^verbatim>\<open>return\<close> statement; with a function, the run ends before that, at the closing brace
  of \<^verbatim>\<open>printParamsAndResult\<close> for the first function, when the stream holds the lines
  up to the table and the head of that function. No line of a function is completed.
\<close>

theorem Module_print_order:
  "Module_print fm o' m \<noteq> Inr r
   \<and> (Module_print fm o' m = Inl (MissingReturn r) \<longleftrightarrow>
     (\<exists>es t tail.
        list_all2 (\<lambda>e s. Export_print [] 1 e = Inr s) (exports m) es
      \<and> Table_print [] 1 (table m) = Inr t
      \<and> (functions' m = [] \<and> tail = '')'' @ [NL]
         \<or> (\<exists>g fs. functions' m = Some g # fs
              \<and> tail = ''  (func '' @ str (Function.name g) @ '' ''
                  @ printParams [] (Function.params g)
                  @ ''(result '' @ printBasicType [] (Function.result g) @ '')''))
      \<and> r = o' @ ''(module'' @ [NL]
            @ concat (map module_line (map (FunctionType_print [] 1) (functionTypes m)))
            @ concat (map module_line
                (map (\<lambda>x. Import_print [] 1 (snd x)) (std_map_entries (imports' m))))
            @ concat (map module_line es)
            @ module_line t
            @ tail))
   \<and> sorted (map (str \<circ> fst) (std_map_entries (imports' m)))
   \<and> distinct (map fst (std_map_entries (imports' m)))
   \<and> (finite (Mapping.keys (imports' m)) \<longrightarrow>
        map_of (std_map_entries (imports' m)) = Mapping.lookup (imports' m))"
proof -
  let ?head = "o' @ ''(module'' @ [NL]
    @ concat (map module_line (map (FunctionType_print [] 1) (functionTypes m)))
    @ concat (map module_line
        (map (\<lambda>x. Import_print [] 1 (snd x)) (std_map_entries (imports' m))))"
  let ?tail = "\<lambda>tail. functions' m = [] \<and> tail = '')'' @ [NL]
         \<or> (\<exists>g fs. functions' m = Some g # fs
              \<and> tail = ''  (func '' @ str (Function.name g) @ '' ''
                  @ printParams [] (Function.params g)
                  @ ''(result '' @ printBasicType [] (Function.result g) @ '')'')"
  have line: "(\<lambda>s. doIndent [] 1 @ s @ [NL]) = module_line"
    by (simp add: fun_eq_iff doIndent_1 module_line_def)
  have head: "Module_printImports
      (Module_printFunctionTypes (o' @ ''(module'' @ [NL]) 1 (functionTypes m)) 1
      (std_map_entries (imports' m)) = ?head"
    by (simp add: Module_printImports_text Module_printFunctionTypes_text doIndent_1
        module_line_def comp_def)
  have main: "Module_print fm o' m = Inl (MissingReturn r) \<longleftrightarrow>
     (\<exists>es t tail.
        list_all2 (\<lambda>e s. Export_print [] 1 e = Inr s) (exports m) es
      \<and> Table_print [] 1 (table m) = Inr t
      \<and> ?tail tail
      \<and> r = ?head @ concat (map module_line es) @ module_line t @ tail)"
    (is "?L \<longleftrightarrow> ?R")
  proof
    assume ?L
    then obtain o2 o3
      where o2: "Module_printExports ?head 1 (exports m) = Inr o2"
        and o3: "Table_print (doIndent o2 1) 1 (table m) = Inr o3"
        and r: "functions' m = [] \<and> r = o3 @ [NL] @ '')'' @ [NL]
          \<or> (\<exists>g fs. functions' m = Some g # fs
               \<and> r = o3 @ [NL] @ ''  (func '' @ str (Function.name g) @ '' ''
                   @ printParams [] (Function.params g)
                   @ ''(result '' @ printBasicType [] (Function.result g) @ '')'')"
      unfolding Module_print_MissingReturn_iff head by blast
    from o2 obtain es where es: "list_all2 (\<lambda>e s. Export_print [] 1 e = Inr s) (exports m) es"
      and o2': "o2 = ?head @ concat (map module_line es)"
      unfolding Module_printExports_text line by blast
    from o3 Table_print_Inr [of "doIndent o2 1" 1 "table m" o3]
    obtain t where t: "Table_print [] 1 (table m) = Inr t" and o3': "o3 = doIndent o2 1 @ t"
      by blast
    from o2' o3' have o3'': "o3 @ [NL] = ?head @ concat (map module_line es) @ module_line t"
      by (simp add: doIndent_concat module_line_def)
    from r obtain tail where tail: "?tail tail" and r': "r = (o3 @ [NL]) @ tail"
      by auto
    from r' have "r = ?head @ concat (map module_line es) @ module_line t @ tail"
      unfolding o3'' by simp
    with es t tail show ?R
      by blast
  next
    assume ?R
    then obtain es t tail
      where es: "list_all2 (\<lambda>e s. Export_print [] 1 e = Inr s) (exports m) es"
        and t: "Table_print [] 1 (table m) = Inr t"
        and tail: "?tail tail"
        and r: "r = ?head @ concat (map module_line es) @ module_line t @ tail"
      by blast
    let ?o2 = "?head @ concat (map module_line es)"
    let ?o3 = "doIndent ?o2 1 @ t"
    from es have e2: "Module_printExports ?head 1 (exports m) = Inr ?o2"
      unfolding Module_printExports_text line by blast
    from t Table_print_Inr [of "doIndent ?o2 1" 1 "table m" ?o3]
    have e3: "Table_print (doIndent ?o2 1) 1 (table m) = Inr ?o3"
      by blast
    have o3: "?o3 @ [NL] = ?head @ concat (map module_line es) @ module_line t"
      by (simp add: doIndent_concat module_line_def)
    from r have r': "r = (?o3 @ [NL]) @ tail"
      unfolding o3 by simp
    from tail r' have "functions' m = [] \<and> r = ?o3 @ [NL] @ '')'' @ [NL]
          \<or> (\<exists>g fs. functions' m = Some g # fs
               \<and> r = ?o3 @ [NL] @ ''  (func '' @ str (Function.name g) @ '' ''
                   @ printParams [] (Function.params g)
                   @ ''(result '' @ printBasicType [] (Function.result g) @ '')'')"
      by auto
    with e2 e3 show ?L
      unfolding Module_print_MissingReturn_iff head by blast
  qed
  have d: "distinct (map fst (std_map_entries (imports' m)))"
    by (simp add: std_map_entries_keys)
  have f: "finite (Mapping.keys (imports' m)) \<longrightarrow>
      map_of (std_map_entries (imports' m)) = Mapping.lookup (imports' m)"
    using std_map_entries_map_of [of "imports' m"] by blast
  from Module_print_never_returns [of fm o' m r] main [unfolded append_assoc]
    std_map_entries_sorted [of "imports' m"] d f
  show ?thesis
    by (intro conjI)
qed

theorem Module_print_order_witness:
  "Module_print \<lparr>show_float = (\<lambda>w. ''0''), show_double = (\<lambda>w. ''0'')\<rparr> []
     (\<lparr>functionTypes = [\<lparr>FunctionType.name = IString 2000000 ''$t'', result = i32,
               params = [i32, i32]\<rparr>],
       imports' = Mapping.update (IString 2000016 ''print'')
           \<lparr>Import.name = IString 2000016 ''print'', module = IString 2000032 ''env'',
              base = IString 2000016 ''print'',
              type = \<lparr>FunctionType.name = IString 2000040 ''$p'', result = none, params = [i32]\<rparr>\<rparr>
         (Mapping.update (IString 2000024 ''abort'')
           \<lparr>Import.name = IString 2000024 ''abort'', module = IString 2000032 ''env'',
              base = IString 2000024 ''abort'',
              type = \<lparr>FunctionType.name = IString 2000048 ''$a'', result = none, params = []\<rparr>\<rparr>
          Mapping.empty),
       exports = [\<lparr>Export.name = IString 2000056 ''add'',
          value' = Var_of_str (IString 2000056 ''add'')\<rparr>],
       table = \<lparr>vars = [Var_of_num 1]\<rparr>,
       functions' = [],
       nextVar = 3\<rparr>)
   = Inl (MissingReturn (''(module'' @ [NL]
      @ ''  (type $t'' @ [NL]
      @ ''    (param i32) (param i32) (result i32)'' @ [NL]
      @ ''  )'' @ [NL]
      @ ''  (import abort '' @ [CHR 0x22] @ ''env'' @ [CHR 0x22] @ '' '' @ [CHR 0x22] @ ''abort'' @ [CHR 0x22] @ '' (type $a'' @ [NL]
      @ ''    (result none)'' @ [NL]
      @ ''  ))'' @ [NL]
      @ ''  (import print '' @ [CHR 0x22] @ ''env'' @ [CHR 0x22] @ '' '' @ [CHR 0x22] @ ''print'' @ [CHR 0x22] @ '' (type $p'' @ [NL]
      @ ''    (param i32) (result none)'' @ [NL]
      @ ''  ))'' @ [NL]
      @ ''  (export '' @ [CHR 0x22] @ ''add'' @ [CHR 0x22] @ '' add)'' @ [NL]
      @ ''  (table 1 )'' @ [NL]
      @ '')'' @ [NL]))
   \<and> Module_print \<lparr>show_float = (\<lambda>w. ''0''), show_double = (\<lambda>w. ''0'')\<rparr> []
     (\<lparr>functionTypes = [\<lparr>FunctionType.name = IString 2000000 ''$t'', result = i32,
               params = [i32, i32]\<rparr>],
       imports' = Mapping.update (IString 2000016 ''print'')
           \<lparr>Import.name = IString 2000016 ''print'', module = IString 2000032 ''env'',
              base = IString 2000016 ''print'',
              type = \<lparr>FunctionType.name = IString 2000040 ''$p'', result = none, params = [i32]\<rparr>\<rparr>
         (Mapping.update (IString 2000024 ''abort'')
           \<lparr>Import.name = IString 2000024 ''abort'', module = IString 2000032 ''env'',
              base = IString 2000024 ''abort'',
              type = \<lparr>FunctionType.name = IString 2000048 ''$a'', result = none, params = []\<rparr>\<rparr>
          Mapping.empty),
       exports = [\<lparr>Export.name = IString 2000056 ''add'',
          value' = Var_of_str (IString 2000056 ''add'')\<rparr>],
       table = \<lparr>vars = [Var_of_num 1]\<rparr>,
       functions' = [Some \<lparr>Function.name = IString 2000056 ''add'', result = i32,
          params = [\<lparr>NameType.name = IString 2000064 ''$x'', type = i32\<rparr>,
                    \<lparr>NameType.name = IString 2000072 ''$y'', type = i32\<rparr>],
          locals = [\<lparr>NameType.name = IString 2000080 ''$z'', type = f64\<rparr>],
          body = Some (Binary Add (Some (GetLocal (Var_of_num 1))) (Some (GetLocal (Var_of_num 2))))\<rparr>],
       nextVar = 3\<rparr>)
   = Inl (MissingReturn (''(module'' @ [NL]
      @ ''  (type $t'' @ [NL]
      @ ''    (param i32) (param i32) (result i32)'' @ [NL]
      @ ''  )'' @ [NL]
      @ ''  (import abort '' @ [CHR 0x22] @ ''env'' @ [CHR 0x22] @ '' '' @ [CHR 0x22] @ ''abort'' @ [CHR 0x22] @ '' (type $a'' @ [NL]
      @ ''    (result none)'' @ [NL]
      @ ''  ))'' @ [NL]
      @ ''  (import print '' @ [CHR 0x22] @ ''env'' @ [CHR 0x22] @ '' '' @ [CHR 0x22] @ ''print'' @ [CHR 0x22] @ '' (type $p'' @ [NL]
      @ ''    (param i32) (result none)'' @ [NL]
      @ ''  ))'' @ [NL]
      @ ''  (export '' @ [CHR 0x22] @ ''add'' @ [CHR 0x22] @ '' add)'' @ [NL]
      @ ''  (table 1 )'' @ [NL]
      @ ''  (func add (param $x i32) (param $y i32) (result i32)''))
   \<and> map_of (std_map_entries (imports' (\<lparr>functionTypes = [\<lparr>FunctionType.name = IString 2000000 ''$t'', result = i32,
               params = [i32, i32]\<rparr>],
       imports' = Mapping.update (IString 2000016 ''print'')
           \<lparr>Import.name = IString 2000016 ''print'', module = IString 2000032 ''env'',
              base = IString 2000016 ''print'',
              type = \<lparr>FunctionType.name = IString 2000040 ''$p'', result = none, params = [i32]\<rparr>\<rparr>
         (Mapping.update (IString 2000024 ''abort'')
           \<lparr>Import.name = IString 2000024 ''abort'', module = IString 2000032 ''env'',
              base = IString 2000024 ''abort'',
              type = \<lparr>FunctionType.name = IString 2000048 ''$a'', result = none, params = []\<rparr>\<rparr>
          Mapping.empty),
       exports = [\<lparr>Export.name = IString 2000056 ''add'',
          value' = Var_of_str (IString 2000056 ''add'')\<rparr>],
       table = \<lparr>vars = [Var_of_num 1]\<rparr>,
       functions' = [],
       nextVar = 3\<rparr>)))
       = Mapping.lookup (imports' (\<lparr>functionTypes = [\<lparr>FunctionType.name = IString 2000000 ''$t'', result = i32,
               params = [i32, i32]\<rparr>],
       imports' = Mapping.update (IString 2000016 ''print'')
           \<lparr>Import.name = IString 2000016 ''print'', module = IString 2000032 ''env'',
              base = IString 2000016 ''print'',
              type = \<lparr>FunctionType.name = IString 2000040 ''$p'', result = none, params = [i32]\<rparr>\<rparr>
         (Mapping.update (IString 2000024 ''abort'')
           \<lparr>Import.name = IString 2000024 ''abort'', module = IString 2000032 ''env'',
              base = IString 2000024 ''abort'',
              type = \<lparr>FunctionType.name = IString 2000048 ''$a'', result = none, params = []\<rparr>\<rparr>
          Mapping.empty),
       exports = [\<lparr>Export.name = IString 2000056 ''add'',
          value' = Var_of_str (IString 2000056 ''add'')\<rparr>],
       table = \<lparr>vars = [Var_of_num 1]\<rparr>,
       functions' = [],
       nextVar = 3\<rparr>))"
proof -
  let ?fm = "\<lparr>show_float = (\<lambda>w. ''0''), show_double = (\<lambda>w. ''0'')\<rparr>"
  let ?m = "\<lparr>functionTypes = [\<lparr>FunctionType.name = IString 2000000 ''$t'', result = i32,
               params = [i32, i32]\<rparr>],
       imports' = Mapping.update (IString 2000016 ''print'')
           \<lparr>Import.name = IString 2000016 ''print'', module = IString 2000032 ''env'',
              base = IString 2000016 ''print'',
              type = \<lparr>FunctionType.name = IString 2000040 ''$p'', result = none, params = [i32]\<rparr>\<rparr>
         (Mapping.update (IString 2000024 ''abort'')
           \<lparr>Import.name = IString 2000024 ''abort'', module = IString 2000032 ''env'',
              base = IString 2000024 ''abort'',
              type = \<lparr>FunctionType.name = IString 2000048 ''$a'', result = none, params = []\<rparr>\<rparr>
          Mapping.empty),
       exports = [\<lparr>Export.name = IString 2000056 ''add'',
          value' = Var_of_str (IString 2000056 ''add'')\<rparr>],
       table = \<lparr>vars = [Var_of_num 1]\<rparr>,
       functions' = [],
       nextVar = 3\<rparr>"
  let ?n = "\<lparr>functionTypes = [\<lparr>FunctionType.name = IString 2000000 ''$t'', result = i32,
               params = [i32, i32]\<rparr>],
       imports' = Mapping.update (IString 2000016 ''print'')
           \<lparr>Import.name = IString 2000016 ''print'', module = IString 2000032 ''env'',
              base = IString 2000016 ''print'',
              type = \<lparr>FunctionType.name = IString 2000040 ''$p'', result = none, params = [i32]\<rparr>\<rparr>
         (Mapping.update (IString 2000024 ''abort'')
           \<lparr>Import.name = IString 2000024 ''abort'', module = IString 2000032 ''env'',
              base = IString 2000024 ''abort'',
              type = \<lparr>FunctionType.name = IString 2000048 ''$a'', result = none, params = []\<rparr>\<rparr>
          Mapping.empty),
       exports = [\<lparr>Export.name = IString 2000056 ''add'',
          value' = Var_of_str (IString 2000056 ''add'')\<rparr>],
       table = \<lparr>vars = [Var_of_num 1]\<rparr>,
       functions' = [Some \<lparr>Function.name = IString 2000056 ''add'', result = i32,
          params = [\<lparr>NameType.name = IString 2000064 ''$x'', type = i32\<rparr>,
                    \<lparr>NameType.name = IString 2000072 ''$y'', type = i32\<rparr>],
          locals = [\<lparr>NameType.name = IString 2000080 ''$z'', type = f64\<rparr>],
          body = Some (Binary Add (Some (GetLocal (Var_of_num 1))) (Some (GetLocal (Var_of_num 2))))\<rparr>],
       nextVar = 3\<rparr>"
  let ?r = "''(module'' @ [NL]
      @ ''  (type $t'' @ [NL]
      @ ''    (param i32) (param i32) (result i32)'' @ [NL]
      @ ''  )'' @ [NL]
      @ ''  (import abort '' @ [CHR 0x22] @ ''env'' @ [CHR 0x22] @ '' '' @ [CHR 0x22] @ ''abort'' @ [CHR 0x22] @ '' (type $a'' @ [NL]
      @ ''    (result none)'' @ [NL]
      @ ''  ))'' @ [NL]
      @ ''  (import print '' @ [CHR 0x22] @ ''env'' @ [CHR 0x22] @ '' '' @ [CHR 0x22] @ ''print'' @ [CHR 0x22] @ '' (type $p'' @ [NL]
      @ ''    (param i32) (result none)'' @ [NL]
      @ ''  ))'' @ [NL]
      @ ''  (export '' @ [CHR 0x22] @ ''add'' @ [CHR 0x22] @ '' add)'' @ [NL]
      @ ''  (table 1 )'' @ [NL]
      @ '')'' @ [NL]"
  let ?q = "''(module'' @ [NL]
      @ ''  (type $t'' @ [NL]
      @ ''    (param i32) (param i32) (result i32)'' @ [NL]
      @ ''  )'' @ [NL]
      @ ''  (import abort '' @ [CHR 0x22] @ ''env'' @ [CHR 0x22] @ '' '' @ [CHR 0x22] @ ''abort'' @ [CHR 0x22] @ '' (type $a'' @ [NL]
      @ ''    (result none)'' @ [NL]
      @ ''  ))'' @ [NL]
      @ ''  (import print '' @ [CHR 0x22] @ ''env'' @ [CHR 0x22] @ '' '' @ [CHR 0x22] @ ''print'' @ [CHR 0x22] @ '' (type $p'' @ [NL]
      @ ''    (param i32) (result none)'' @ [NL]
      @ ''  ))'' @ [NL]
      @ ''  (export '' @ [CHR 0x22] @ ''add'' @ [CHR 0x22] @ '' add)'' @ [NL]
      @ ''  (table 1 )'' @ [NL]
      @ ''  (func add (param $x i32) (param $y i32) (result i32)''"
  let ?abort = "\<lparr>Import.name = IString 2000024 ''abort'', module = IString 2000032 ''env'',
    base = IString 2000024 ''abort'',
    type = \<lparr>FunctionType.name = IString 2000048 ''$a'', result = none, params = []\<rparr>\<rparr>"
  let ?print = "\<lparr>Import.name = IString 2000016 ''print'', module = IString 2000032 ''env'',
    base = IString 2000016 ''print'',
    type = \<lparr>FunctionType.name = IString 2000040 ''$p'', result = none, params = [i32]\<rparr>\<rparr>"
  let ?g = "\<lparr>Function.name = IString 2000056 ''add'', result = i32,
          params = [\<lparr>NameType.name = IString 2000064 ''$x'', type = i32\<rparr>,
                    \<lparr>NameType.name = IString 2000072 ''$y'', type = i32\<rparr>],
          locals = [\<lparr>NameType.name = IString 2000080 ''$z'', type = f64\<rparr>],
          body = Some (Binary Add (Some (GetLocal (Var_of_num 1))) (Some (GetLocal (Var_of_num 2))))\<rparr>"
  have ent: "std_map_entries (imports' ?m)
      = [(IString 2000024 ''abort'', ?abort), (IString 2000016 ''print'', ?print)]"
    by (simp add: std_map_entries_def ordered_keys_def less_eq_Name_def less_Name_def
        List.map_filter_def)
  have ent': "std_map_entries (imports' ?n)
      = [(IString 2000024 ''abort'', ?abort), (IString 2000016 ''print'', ?print)]"
    by (simp add: std_map_entries_def ordered_keys_def less_eq_Name_def less_Name_def
        List.map_filter_def)
  have es: "list_all2 (\<lambda>e s. Export_print [] 1 e = Inr s) (exports ?m)
      [''(export '' @ [CHR 0x22] @ ''add'' @ [CHR 0x22] @ '' add)'']"
    by (simp add: Export_print_def MAX_NUM_def)
  have es': "list_all2 (\<lambda>e s. Export_print [] 1 e = Inr s) (exports ?n)
      [''(export '' @ [CHR 0x22] @ ''add'' @ [CHR 0x22] @ '' add)'']"
    by (simp add: Export_print_def MAX_NUM_def)
  have t: "Table_print [] 1 (table ?m) = Inr ''(table 1 )''"
    by (simp add: Table_print_def print_eval MAX_NUM_def)
  have t': "Table_print [] 1 (table ?n) = Inr ''(table 1 )''"
    by (simp add: Table_print_def print_eval MAX_NUM_def)
  have tl: "functions' ?m = [] \<and> '')'' @ [NL] = '')'' @ [NL]
      \<or> (\<exists>g fs. functions' ?m = Some g # fs
           \<and> '')'' @ [NL] = ''  (func '' @ str (Function.name g) @ '' ''
               @ printParams [] (Function.params g)
               @ ''(result '' @ printBasicType [] (Function.result g) @ '')'')"
    by simp
  have "functions' ?n = Some ?g # []
      \<and> ''  (func add (param $x i32) (param $y i32) (result i32)''
        = ''  (func '' @ str (Function.name ?g) @ '' ''
               @ printParams [] (Function.params ?g)
               @ ''(result '' @ printBasicType [] (Function.result ?g) @ '')''"
    by simp
  then have tl': "functions' ?n = []
        \<and> ''  (func add (param $x i32) (param $y i32) (result i32)'' = '')'' @ [NL]
      \<or> (\<exists>g fs. functions' ?n = Some g # fs
           \<and> ''  (func add (param $x i32) (param $y i32) (result i32)''
             = ''  (func '' @ str (Function.name g) @ '' ''
               @ printParams [] (Function.params g)
               @ ''(result '' @ printBasicType [] (Function.result g) @ '')'')"
    by blast
  have r: "?r = [] @ ''(module'' @ [NL]
      @ concat (map module_line (map (FunctionType_print [] 1) (functionTypes ?m)))
      @ concat (map module_line
          (map (\<lambda>x. Import_print [] 1 (snd x)) (std_map_entries (imports' ?m))))
      @ concat (map module_line
          [''(export '' @ [CHR 0x22] @ ''add'' @ [CHR 0x22] @ '' add)''])
      @ module_line ''(table 1 )''
      @ '')'' @ [NL]"
    unfolding ent
    by (simp add: module_line_def FunctionType_print_def Import_print_def print_eval)
  have q: "?q = [] @ ''(module'' @ [NL]
      @ concat (map module_line (map (FunctionType_print [] 1) (functionTypes ?n)))
      @ concat (map module_line
          (map (\<lambda>x. Import_print [] 1 (snd x)) (std_map_entries (imports' ?n))))
      @ concat (map module_line
          [''(export '' @ [CHR 0x22] @ ''add'' @ [CHR 0x22] @ '' add)''])
      @ module_line ''(table 1 )''
      @ ''  (func add (param $x i32) (param $y i32) (result i32)''"
    unfolding ent'
    by (simp add: module_line_def FunctionType_print_def Import_print_def print_eval)
  have fin: "finite (Mapping.keys (imports' ?m))"
    by simp
  from Module_print_order [of ?fm "[]" ?m ?r] es t tl r
  have a: "Module_print ?fm [] ?m = Inl (MissingReturn ?r)"
    by blast
  from Module_print_order [of ?fm "[]" ?n ?q] es' t' tl' q
  have b: "Module_print ?fm [] ?n = Inl (MissingReturn ?q)"
    by blast
  from Module_print_order [of ?fm "[]" ?m ?r] fin
  have c: "map_of (std_map_entries (imports' ?m)) = Mapping.lookup (imports' ?m)"
    by blast
  from a b c show ?thesis
    by (intro conjI)
qed

text \<open>The module that \<^verbatim>\<open>Module()\<close> constructs.\<close>

lemma Module_print_empty:
  "Module_print fm [] Module_init
   = Inl (MissingReturn (''(module'' @ [NL] @ ''  (table )'' @ [NL] @ '')'' @ [NL]))"
  by (simp add: Module_print_def Module_init_def Table_print_def print_eval
      std_map_entries_def ordered_keys_def List.map_filter_def)

subsection \<open>Which expressions print\<close>

text \<open>
  The smallest instance of every variant with the children that \<^verbatim>\<open>print\<close> dereferences
  present (a \<^verbatim>\<open>Nop\<close>), the identifiers set, a typed literal and an operator that the
  printer supports. Six variants print their form; the others end at the closing brace of
  \<^verbatim>\<open>printFullLine\<close> after the line of the first child, or at the one of
  \<^verbatim>\<open>Const::print\<close>.
\<close>

lemma print_minimal_instances:
  fixes fm :: float_format
  defines "pr \<equiv> print fm [] 0"
  shows "pr Nop = Inr ''nop''"
    and "pr (Block Var_default []) = Inr (''(block'' @ [NL] @ '')'')"
    and "pr (If (Some Nop) (Some Nop) None) = Inl (MissingReturn (''(if'' @ [NL] @ ''  nop'' @ [NL]))"
    and "pr (Loop Var_default Var_default (Some Nop))
      = Inl (MissingReturn (''(loop'' @ [NL] @ ''  nop'' @ [NL]))"
    and "pr (Break (Var_of_num 1) None None) = Inr (''(break 1'' @ [NL] @ '')'')"
    and "pr (Switch (Var_of_num 1) (Some Nop) [] None)
      = Inl (MissingReturn (''(switch 1'' @ [NL] @ ''  nop'' @ [NL]))"
    and "pr (Call (Var_of_num 1) []) = Inr (''(call 1'' @ [NL] @ '')'')"
    and "pr (CallImport (Var_of_num 1) []) = Inr (''(call 1'' @ [NL] @ '')'')"
    and "pr (CallIndirect (Some Nop) [])
      = Inl (MissingReturn (''(callindirect '' @ [NL] @ ''  nop'' @ [NL]))"
    and "pr (GetLocal (Var_of_num 1)) = Inr ''(setlocal 1)''"
    and "pr (SetLocal (Var_of_num 1) (Some Nop))
      = Inl (MissingReturn (''(setlocal 1'' @ [NL] @ ''  nop'' @ [NL]))"
    and "pr (Load 4 True 0 4 (Some Nop))
      = Inl (MissingReturn (''(load 4 1 0 4'' @ [NL] @ ''  nop'' @ [NL]))"
    and "pr (Store 4 0 4 (Some Nop) (Some Nop))
      = Inl (MissingReturn (''(load 4  0 4'' @ [NL] @ ''  nop'' @ [NL]))"
    and "pr (Const (Literal_i32 0)) = Inl (MissingReturn ''(literal 0)'')"
    and "pr (Unary Neg (Some Nop)) = Inl (MissingReturn (''(unary neg'' @ [NL] @ ''  nop'' @ [NL]))"
    and "pr (Binary Add (Some Nop) (Some Nop))
      = Inl (MissingReturn (''(binary add'' @ [NL] @ ''  nop'' @ [NL]))"
    and "pr (Compare Eq (Some Nop) (Some Nop))
      = Inl (MissingReturn (''(compare eq'' @ [NL] @ ''  nop'' @ [NL]))"
    and "pr (Convert ConvertSInt32 (Some Nop))
      = Inl (MissingReturn (''(convert sint32toDouble'' @ [NL] @ ''  nop'' @ [NL]))"
  by (simp_all add: pr_def print_eval Var_is_def Var_default_def MAX_NUM_def)

text \<open>
  The instance of every variant as \<^verbatim>\<open>new (ret) T()\<close> leaves it: the pointers null, the
  lists empty, the identifiers unset, the numbers zero, the operator the first of its
  enumeration and the literal of type \<open>none\<close>.
\<close>

lemma print_fresh_instances:
  fixes fm :: float_format
  defines "pr \<equiv> print fm [] 0"
  shows "pr Nop = Inr ''nop''"
    and "pr (Block Var_default []) = Inr (''(block'' @ [NL] @ '')'')"
    and "pr (If None None None) = Inl NullDereference"
    and "pr (Loop Var_default Var_default None) = Inl NullDereference"
    and "pr (Break Var_default None None) = Inr (''(break 0'' @ [NL] @ '')'')"
    and "pr (Switch Var_default None [] None) = Inl NullDereference"
    and "pr (Call Var_default []) = Inr (''(call 0'' @ [NL] @ '')'')"
    and "pr (CallImport Var_default []) = Inr (''(call 0'' @ [NL] @ '')'')"
    and "pr (CallIndirect None []) = Inl NullDereference"
    and "pr (GetLocal Var_default) = Inr ''(setlocal 0)''"
    and "pr (SetLocal Var_default None) = Inl NullDereference"
    and "pr (Load 0 False 0 0 None) = Inl NullDereference"
    and "pr (Store 0 0 0 None None) = Inl NullDereference"
    and "pr Const_default = Inl Abort"
    and "pr (Unary Clz None) = Inl Abort"
    and "pr (Binary Add None None) = Inl NullDereference"
    and "pr (Compare Eq None None) = Inl NullDereference"
    and "pr (Convert ExtendSInt32 None) = Inl Abort"
  by (simp_all add: pr_def print_eval Var_is_def Var_default_def MAX_NUM_def Const_default_def)

text \<open>The text of a constructed identifier, and the layout of a form without lines.\<close>

lemma Var_print_constructed:
  assumes "constructed v"
  shows "\<exists>t. (\<forall>o'. Var_print o' v = Inr (o' @ t)) \<and> (clean_Var v \<longrightarrow> clean t)"
proof (cases v)
  case (Var_of_num n)
  with assms have "n = 0 \<or> 0 < n \<and> n < MAX_NUM"
    by (auto simp: Var_default_def Var_num_def split: if_splits)
  then have "n < MAX_NUM"
    by (auto simp: MAX_NUM_def)
  with Var_of_num have "\<forall>o'. Var_print o' v = Inr (o' @ decimal (unat n))"
    by (simp add: put_unsigned_def)
  with clean_decimal [of "unat n"] show ?thesis
    by blast
next
  case (Var_of_str s)
  with assms have "MAX_NUM < handle s"
    by (auto simp: Var_name_def split: if_splits)
  then have "\<not> handle s < MAX_NUM"
    by (rule less_not_sym)
  with Var_of_str have "\<forall>o'. Var_print o' v = Inr (o' @ str s)"
    by simp
  with Var_of_str show ?thesis
    by auto
qed

lemma form_closed_next_line:
  "clean a \<Longrightarrow> laid_out k (CHR ''('' # a @ [NL] @ replicate (2 * k) CHR '' '' @ '')'')"
  by (simp add: laid_out_def scan_append scan_clean scan_spaces)

lemma form_closed_same_line: "clean a \<Longrightarrow> laid_out k (CHR ''('' # a @ '')'')"
  by (simp add: laid_out_def scan_append scan_clean)

lemma print_childless:
  assumes "childless e" and "list_all constructed (vars_of e)"
  shows "\<exists>s. print fm o' indent e = Inr (o' @ s)
    \<and> (list_all clean_Var (vars_of e) \<longrightarrow> laid_out (unat indent) s)"
proof -
  have closed: "\<exists>s. Inr (o' @ CHR ''('' # a @ t @ [NL] @ replicate (2 * unat indent) CHR '' '' @ '')'')
        = (Inr (o' @ s) :: failure + ostream)
      \<and> (clean_Var v \<longrightarrow> laid_out (unat indent) s)"
    if "clean a" and "clean_Var v \<longrightarrow> clean t" for a t v
  proof -
    from that have "clean_Var v \<longrightarrow> clean (a @ t)"
      by simp
    with form_closed_next_line [of "a @ t" "unat indent"] show ?thesis
      by auto
  qed
  show ?thesis
  proof (cases e)
    case Nop
    then show ?thesis
      by (simp add: laid_out_def)
  next
    case (Block var list)
    with assms have l: "list = []" and "constructed var"
      by simp_all
    then obtain t where t: "\<And>o'. Var_print o' var = Inr (o' @ t)"
      and c: "clean_Var var \<longrightarrow> clean t"
      using Var_print_constructed [of var] by blast
    show ?thesis
    proof (cases "Var_is var")
      case True
      have "clean ''block ''"
        by (simp add: clean_def)
      from closed [OF this c] Block l True show ?thesis
        by (simp add: print_unfold t del: Var_print.simps)
    next
      case False
      have "clean ''block''"
        by (simp add: clean_def)
      from form_closed_next_line [OF this, of "unat indent"] Block l False show ?thesis
        by (simp add: print_unfold del: Var_print.simps)
    qed
  next
    case (Break var condition val)
    with assms have l: "condition = None" "val = None" and "constructed var"
      by simp_all
    then obtain t where t: "\<And>o'. Var_print o' var = Inr (o' @ t)"
      and c: "clean_Var var \<longrightarrow> clean t"
      using Var_print_constructed [of var] by blast
    have "clean ''break ''"
      by (simp add: clean_def)
    from closed [OF this c] Break l show ?thesis
      by (simp add: print_unfold t del: Var_print.simps)
  next
    case (Call target operands)
    with assms have l: "operands = []" and "constructed target"
      by simp_all
    then obtain t where t: "\<And>o'. Var_print o' target = Inr (o' @ t)"
      and c: "clean_Var target \<longrightarrow> clean t"
      using Var_print_constructed [of target] by blast
    have "clean ''call ''"
      by (simp add: clean_def)
    from closed [OF this c] Call l show ?thesis
      by (simp add: print_unfold t del: Var_print.simps)
  next
    case (CallImport target operands)
    with assms have l: "operands = []" and "constructed target"
      by simp_all
    then obtain t where t: "\<And>o'. Var_print o' target = Inr (o' @ t)"
      and c: "clean_Var target \<longrightarrow> clean t"
      using Var_print_constructed [of target] by blast
    have "clean ''call ''"
      by (simp add: clean_def)
    from closed [OF this c] CallImport l show ?thesis
      by (simp add: print_unfold t del: Var_print.simps)
  next
    case (GetLocal id')
    with assms have "constructed id'"
      by simp
    then obtain t where t: "\<And>o'. Var_print o' id' = Inr (o' @ t)"
      and c: "clean_Var id' \<longrightarrow> clean t"
      using Var_print_constructed [of id'] by blast
    have "clean_Var id' \<longrightarrow> clean (''setlocal '' @ t)"
      using c by (simp add: clean_def)
    with form_closed_same_line [of "''setlocal '' @ t" "unat indent"] GetLocal show ?thesis
      by (auto simp: t simp del: Var_print.simps)
  qed (use assms in simp_all)
qed

lemma printFullLines_returns_Nil: "printFullLines fm o' indent list = Inr r \<Longrightarrow> list = []"
  using printFullLines_never_returns [of list fm o' indent r] by blast

lemma print_returns_childless: "print fm o' indent e = Inr r \<Longrightarrow> childless e"
  by (cases e)
    (auto simp: and_then_eq_Inr incIndent_def printFullLine_never_returns
      split: if_splits simp del: Var_print.simps dest: printFullLines_returns_Nil)

text \<open>
  C1. \<^verbatim>\<open>print\<close> returns only for a node that prints no child: a \<^verbatim>\<open>Nop\<close>, a
  \<^verbatim>\<open>GetLocal\<close>, a \<^verbatim>\<open>Block\<close> or a call without elements, a \<^verbatim>\<open>Break\<close> with neither
  condition nor value. For these, with identifiers that a constructor of \<^verbatim>\<open>Var\<close> has
  made, it does return; the text it appended has balanced delimiters and is laid out by
  depth (the closing parenthesis stands in the form's own line, or alone on the next line
  at the indentation of the opening one), provided no name of an identifier holds a
  parenthesis or a line break. For every other node, whatever its children are, the call
  does not return: every variant with a child prints it by \<^verbatim>\<open>printFullLine\<close>, which has
  no \<^verbatim>\<open>return\<close> statement, and \<^verbatim>\<open>Const::print\<close> has none either.
\<close>

theorem print_returns_iff_childless:
  "(childless e \<and> list_all constructed (vars_of e) \<longrightarrow>
      (\<exists>s. print fm o' indent e = Inr (o' @ s)
         \<and> (list_all clean_Var (vars_of e) \<longrightarrow> balanced s \<and> laid_out (unat indent) s)))
   \<and> (\<not> childless e \<longrightarrow> (\<exists>f. print fm o' indent e = Inl f))"
proof (intro conjI impI)
  assume "childless e \<and> list_all constructed (vars_of e)"
  then obtain s where s: "print fm o' indent e = Inr (o' @ s)"
    and l: "list_all clean_Var (vars_of e) \<longrightarrow> laid_out (unat indent) s"
    using print_childless [of e fm o' indent] by blast
  from l laid_out_balanced [of "unat indent" s]
  have "list_all clean_Var (vars_of e) \<longrightarrow> balanced s \<and> laid_out (unat indent) s"
    by blast
  with s show "\<exists>s. print fm o' indent e = Inr (o' @ s)
      \<and> (list_all clean_Var (vars_of e) \<longrightarrow> balanced s \<and> laid_out (unat indent) s)"
    by blast
next
  assume n: "\<not> childless e"
  show "\<exists>f. print fm o' indent e = Inl f"
  proof (cases "print fm o' indent e")
    case (Inl f)
    then show ?thesis by blast
  next
    case (Inr r)
    with print_returns_childless [of fm o' indent e r] n show ?thesis
      by blast
  qed
qed

theorem print_returns_iff_childless_witness:
  "print \<lparr>show_float = (\<lambda>w. ''0''), show_double = (\<lambda>w. ''0'')\<rparr> [] 0
     (Block (Var_of_str (IString 2000000 ''$out'')) [])
     = Inr (''(block $out'' @ [NL] @ '')'')
   \<and> balanced (''(block $out'' @ [NL] @ '')'')
   \<and> laid_out 0 (''(block $out'' @ [NL] @ '')'')
   \<and> (\<exists>f. print \<lparr>show_float = (\<lambda>w. ''0''), show_double = (\<lambda>w. ''0'')\<rparr> [] 0
          (If (Some Nop) (Some Nop) None) = Inl f)"
proof -
  let ?fm = "\<lparr>show_float = (\<lambda>w. ''0''), show_double = (\<lambda>w. ''0'')\<rparr>"
  let ?b = "Block (Var_of_str (IString 2000000 ''$out'')) []"
  let ?i = "If (Some Nop) (Some Nop) None"
  have h: "childless ?b \<and> list_all constructed (vars_of ?b)"
    by (simp add: Var_name_def MAX_NUM_def)
  have c: "list_all clean_Var (vars_of ?b)"
    by (simp add: clean_def)
  from print_returns_iff_childless [of ?b ?fm "[]" 0] h c
  obtain s where s: "print ?fm [] 0 ?b = Inr ([] @ s)"
    and l: "balanced s \<and> laid_out (unat (0 :: 32 word)) s"
    by blast
  have "print ?fm [] 0 ?b = Inr (''(block $out'' @ [NL] @ '')'')"
    by (simp add: print_eval Var_is_def MAX_NUM_def)
  with s have "s = ''(block $out'' @ [NL] @ '')''"
    by simp
  with s l have a: "print ?fm [] 0 ?b = Inr (''(block $out'' @ [NL] @ '')'')
      \<and> balanced (''(block $out'' @ [NL] @ '')'')
      \<and> laid_out 0 (''(block $out'' @ [NL] @ '')'')"
    by simp
  have "\<not> childless ?i"
    by simp
  with print_returns_iff_childless [of ?i ?fm "[]" 0]
  have "\<exists>f. print ?fm [] 0 ?i = Inl f"
    by blast
  with a show ?thesis
    by blast
qed

end
